theory Spec2Isabelle
  imports Complex_Main "HOL-Library.Sublist" "HOL-Library.AList"
begin

section \<open>Quota ledger (config/usage\_limiter.py)\<close>

text \<open>
  The clock is \<open>datetime.utcnow()\<close>: a naive timestamp, modelled as the number of
  microseconds since the epoch. Every function that reads the clock takes each of its
  readings as an argument, in the order the source reads them.

  A day key is the string \<open>strftime("%Y-%m-%d")\<close> of a timestamp shifted to JST. The
  model stands for that string by the number of the day it names; the order of the day
  numbers is the order \<open>cleanup_old_logs\<close> compares the strings in (four-digit years).
\<close>

type_synonym datetime = int
type_synonym day_key = int

definition usec_per_hour :: int where
  "usec_per_hour = 3600 * 1000000"

definition usec_per_day :: int where
  "usec_per_day = 24 * usec_per_hour"

definition jst_now :: "datetime \<Rightarrow> datetime" where
  \<comment> \<open>\<open>datetime.utcnow() + timedelta(hours=9)\<close>\<close>
  "jst_now utcnow = utcnow + 9 * usec_per_hour"

definition get_today_key :: "datetime \<Rightarrow> day_key" where
  "get_today_key utcnow = jst_now utcnow div usec_per_day"

record day_record =
  total :: int
  ips :: "string \<rightharpoonup> int"

type_synonym log_data = "day_key \<rightharpoonup> day_record"

text \<open>
  The persisted file \<open>usage_log.json\<close>: absent, present but failing to open or read,
  present with text that is not JSON, or holding a ledger.
\<close>

datatype log_file = Missing | Unreadable | InvalidJson | Stored log_data

definition load_usage_log :: "log_file \<Rightarrow> log_data" where
  "load_usage_log f = (case f of Stored l \<Rightarrow> l | _ \<Rightarrow> Map.empty)"

text \<open>
  \<open>save_usage_log\<close> returns False when opening or writing raises. What the file system
  does is an argument: the write goes through; or \<open>open(..., 'w')\<close> raises and the file
  stays as it was; or the file is opened, which truncates it, and \<open>json.dump\<close> raises
  part-way, which leaves an empty file or a proper prefix of the text, neither of which
  is JSON.
\<close>

datatype disk = Writes | OpenFails | WriteFails

definition save_usage_log :: "disk \<Rightarrow> log_file \<Rightarrow> log_data \<Rightarrow> bool \<times> log_file" where
  "save_usage_log dk f l =
     (case dk of
        Writes \<Rightarrow> (True, Stored l)
      | OpenFails \<Rightarrow> (False, f)
      | WriteFails \<Rightarrow> (False, InvalidJson))"

record usage_info =
  total_used :: int
  daily_limit :: int
  remaining :: int
  can_use :: bool
  next_reset :: datetime

definition empty_day :: day_record where
  \<comment> \<open>\<open>{"total": 0, "ips": {}}\<close>\<close>
  "empty_day = \<lparr>total = 0, ips = Map.empty\<rparr>"

definition get_usage_info ::
  "int \<Rightarrow> log_file \<Rightarrow> string option \<Rightarrow> datetime \<Rightarrow> datetime \<Rightarrow> usage_info" where
  "get_usage_info limit f client_ip utc_key utc_reset =
     (let today_key = get_today_key utc_key;
          log = load_usage_log f;
          today_data = (case log today_key of None \<Rightarrow> empty_day | Some r \<Rightarrow> r);
          used = total today_data;
          rem = max 0 (limit - used);
          jst = jst_now utc_reset;
          reset = (jst div usec_per_day) * usec_per_day + usec_per_day
      in \<lparr>total_used = used, daily_limit = limit, remaining = rem,
          can_use = (rem > 0), next_reset = reset\<rparr>)"

definition cleanup_old_logs :: "datetime \<Rightarrow> log_data \<Rightarrow> log_data" where
  "cleanup_old_logs utcnow l =
     (let cutoff_key = (jst_now utcnow - 7 * usec_per_day) div usec_per_day
      in (\<lambda>key. if key < cutoff_key then None else l key))"

datatype quota_message =
    LimitReached   \<comment> \<open>the daily limit has been reached\<close>
  | Recorded       \<comment> \<open>the use has been recorded\<close>
  | SaveFailed     \<comment> \<open>saving the usage record failed\<close>

text \<open>The four clock readings of one \<open>use_quota\<close> call, in order.\<close>

record quota_clock =
  at_info_key :: datetime
  at_info_reset :: datetime
  at_today :: datetime
  at_cleanup :: datetime

definition truthy_ip :: "string option \<Rightarrow> bool" where
  \<comment> \<open>\<open>if client_ip:\<close>\<close>
  "truthy_ip ip = (case ip of None \<Rightarrow> False | Some s \<Rightarrow> s \<noteq> [])"

definition record_ip :: "string option \<Rightarrow> day_record \<Rightarrow> day_record" where
  "record_ip ip r =
     (if truthy_ip ip
      then r\<lparr>ips := (ips r)(the ip \<mapsto> (case ips r (the ip) of None \<Rightarrow> 0 | Some c \<Rightarrow> c) + 1)\<rparr>
      else r)"

definition use_quota ::
  "int \<Rightarrow> disk \<Rightarrow> log_file \<Rightarrow> string option \<Rightarrow> quota_clock \<Rightarrow> (bool \<times> quota_message) \<times> log_file" where
  "use_quota limit dk f client_ip clk =
     (let info = get_usage_info limit f client_ip (at_info_key clk) (at_info_reset clk)
      in if \<not> can_use info then ((False, LimitReached), f)
         else
           let today_key = get_today_key (at_today clk);
               log0 = load_usage_log f;
               log1 = (if today_key \<in> dom log0 then log0 else log0(today_key \<mapsto> empty_day));
               r1 = the (log1 today_key);
               r2 = r1\<lparr>total := total r1 + 1\<rparr>;
               r3 = record_ip client_ip r2;
               log2 = log1(today_key \<mapsto> r3);
               log3 = cleanup_old_logs (at_cleanup clk) log2;
               (saved, f') = save_usage_log dk f log3
           in if saved then ((True, Recorded), f') else ((False, SaveFailed), f'))"

text \<open>The total stored for a day, as \<open>get_usage_info\<close> reads it.\<close>

definition stored_total :: "log_file \<Rightarrow> day_key \<Rightarrow> int" where
  "stored_total f d = (case load_usage_log f d of None \<Rightarrow> 0 | Some r \<Rightarrow> total r)"

text \<open>All clock readings of a call fall on the day \<open>d\<close>.\<close>

definition on_day :: "day_key \<Rightarrow> quota_clock \<Rightarrow> bool" where
  "on_day d clk =
     (get_today_key (at_info_key clk) = d \<and> get_today_key (at_info_reset clk) = d \<and>
      get_today_key (at_today clk) = d \<and> get_today_key (at_cleanup clk) = d)"

text \<open>
  A serialized sequence of \<open>use_quota\<close> calls: each call runs to completion on the file
  the previous one left. The run lists, per call, the file before, the result, and the
  file after.
\<close>

type_synonym consume_call = "disk \<times> string option \<times> quota_clock"

fun run_consumes ::
  "int \<Rightarrow> log_file \<Rightarrow> consume_call list \<Rightarrow> (log_file \<times> (bool \<times> quota_message) \<times> log_file) list" where
  "run_consumes limit f [] = []"
| "run_consumes limit f ((dk, ip, clk) # cs) =
     (let (res, f') = use_quota limit dk f ip clk
      in (f, res, f') # run_consumes limit f' cs)"



definition clk0 :: quota_clock where
  \<comment> \<open>a call made entirely at 1970-01-01 00:00:00 UTC\<close>
  "clk0 = \<lparr>at_info_key = 0, at_info_reset = 0, at_today = 0, at_cleanup = 0\<rparr>"

section \<open>Generation client (core/blog\_generator.py)\<close>

subsection \<open>Values and exceptions\<close>

text \<open>
  What \<open>json.loads\<close> returns. A decoded object is the list of its keys with their
  values, each key once; \<open>dict.get\<close> and subscripting read it with \<open>map_of\<close>.
\<close>

datatype json =
    JNull
  | JBool bool
  | JNum real
  | JStr string
  | JArr "json list"
  | JObj "(string \<times> json) list"

datatype exn =
    ApiError string    \<comment> \<open>an exception raised by the backend call; the string is \<open>str(e)\<close>\<close>
  | NoJsonResponse     \<comment> \<open>\<open>Exception(...)\<close> with the fixed message "no proper JSON response from the API"\<close>
  | NameError string
  | KeyError string
  | AttributeError
  | TypeError
  | TransportError string   \<comment> \<open>an exception raised by an HTTP request\<close>
  | HTTPError nat           \<comment> \<open>\<open>raise_for_status\<close> on a 4xx or 5xx response\<close>

text \<open>A line written to the module's logger; only the lines the properties speak of.\<close>

datatype log_line =
    Received string    \<comment> \<open>\<open>logger.error(f"...: {content[:500]}")\<close>\<close>
  | ExpandFailed exn   \<comment> \<open>\<open>logger.warning\<close> of \<open>_expand_article\<close>'s handler\<close>

subsection \<open>Text primitives\<close>

text \<open>
  A Python \<open>str\<close> is a sequence of code points; the model keeps it as the bytes of its
  UTF-8 encoding. Comparing, concatenating and searching for ASCII text give the same
  answers on the bytes. Where the code counts, slices or classifies characters, \<open>chars\<close>
  splits the bytes into characters first: a character is a byte that is not a
  continuation byte (\<open>10xxxxxx\<close>) together with the continuation bytes after it.
\<close>

definition is_continuation :: "char \<Rightarrow> bool" where
  "is_continuation c = (128 \<le> (of_char c :: nat) \<and> (of_char c :: nat) < 192)"

function chars :: "string \<Rightarrow> string list" where
  "chars [] = []"
| "chars (c # cs) =
     (c # takeWhile is_continuation cs) # chars (dropWhile is_continuation cs)"
  by pat_completeness auto
termination
proof (relation "measure length")
  show "wf (measure length)" by simp
next
  fix c :: char and cs :: string
  have "length (dropWhile is_continuation cs) \<le> length cs" by (rule length_dropWhile_le)
  then show "(dropWhile is_continuation cs, c # cs) \<in> measure length" by simp
qed

definition codepoints :: "string \<Rightarrow> nat" where
  \<comment> \<open>\<open>len(s)\<close>\<close>
  "codepoints s = length (chars s)"

definition take_chars :: "nat \<Rightarrow> string \<Rightarrow> string" where
  \<comment> \<open>\<open>s[:n]\<close>\<close>
  "take_chars n s = concat (take n (chars s))"

text \<open>
  The characters that \<open>\s\<close> (in a \<open>str\<close> pattern) and \<open>str.strip()\<close> treat as whitespace:
  U+0009 to U+000D, U+001C to U+001F, U+0020, U+0085, U+00A0, U+1680, U+2000 to U+200A,
  U+2028, U+2029, U+202F, U+205F and U+3000, each as its UTF-8 bytes.
\<close>

definition space_chars :: "string list" where
  "space_chars =
     [[CHR 0x09], [CHR 0x0A], [CHR 0x0B], [CHR 0x0C], [CHR 0x0D],
      [CHR 0x1C], [CHR 0x1D], [CHR 0x1E], [CHR 0x1F], [CHR 0x20],
      [CHR 0xC2, CHR 0x85], [CHR 0xC2, CHR 0xA0], [CHR 0xE1, CHR 0x9A, CHR 0x80],
      [CHR 0xE2, CHR 0x80, CHR 0x80], [CHR 0xE2, CHR 0x80, CHR 0x81],
      [CHR 0xE2, CHR 0x80, CHR 0x82], [CHR 0xE2, CHR 0x80, CHR 0x83],
      [CHR 0xE2, CHR 0x80, CHR 0x84], [CHR 0xE2, CHR 0x80, CHR 0x85],
      [CHR 0xE2, CHR 0x80, CHR 0x86], [CHR 0xE2, CHR 0x80, CHR 0x87],
      [CHR 0xE2, CHR 0x80, CHR 0x88], [CHR 0xE2, CHR 0x80, CHR 0x89],
      [CHR 0xE2, CHR 0x80, CHR 0x8A], [CHR 0xE2, CHR 0x80, CHR 0xA8],
      [CHR 0xE2, CHR 0x80, CHR 0xA9], [CHR 0xE2, CHR 0x80, CHR 0xAF],
      [CHR 0xE2, CHR 0x81, CHR 0x9F], [CHR 0xE3, CHR 0x80, CHR 0x80]]"

definition is_space :: "string \<Rightarrow> bool" where
  \<comment> \<open>of one character, given by its bytes\<close>
  "is_space ch = (ch \<in> set space_chars)"

definition strip :: "string \<Rightarrow> string" where
  \<comment> \<open>\<open>s.strip()\<close>\<close>
  "strip s = concat (rev (dropWhile is_space (rev (dropWhile is_space (chars s)))))"

definition lower_char :: "char \<Rightarrow> char" where
  "lower_char c =
     (case map_of (zip ''ABCDEFGHIJKLMNOPQRSTUVWXYZ'' ''abcdefghijklmnopqrstuvwxyz'') c of
        Some d \<Rightarrow> d | None \<Rightarrow> c)"

definition lower :: "string \<Rightarrow> string" where
  "lower s = map lower_char s"

fun contains :: "string \<Rightarrow> string \<Rightarrow> bool" where
  \<comment> \<open>\<open>p in s\<close>\<close>
  "contains p [] = (p = [])"
| "contains p (c # cs) = (prefix p (c # cs) \<or> contains p cs)"

text \<open>
  \<open>re.sub(r'<[^>]+>', '', s)\<close>: from the left, a \<open><\<close> followed by at least one character
  other than \<open>>\<close> and then a \<open>>\<close> is removed with everything between; a \<open><\<close> that
  starts no such tag stays.
\<close>

function strip_tags :: "string \<Rightarrow> string" where
  "strip_tags [] = []"
| "strip_tags (c # cs) =
     (if c = CHR ''<'' \<and> takeWhile (\<lambda>x. x \<noteq> CHR ''>'') cs \<noteq> []
           \<and> dropWhile (\<lambda>x. x \<noteq> CHR ''>'') cs \<noteq> []
      then strip_tags (tl (dropWhile (\<lambda>x. x \<noteq> CHR ''>'') cs))
      else c # strip_tags cs)"
  by pat_completeness auto
termination
proof (relation "measure length")
  show "wf (measure length)" by simp
next
  fix c :: char and cs :: string
  have "length (dropWhile (\<lambda>x. x \<noteq> CHR ''>'') cs) \<le> length cs"
    by (rule length_dropWhile_le)
  then have "length (tl (dropWhile (\<lambda>x. x \<noteq> CHR ''>'') cs)) \<le> length cs"
    by simp
  then show "(tl (dropWhile (\<lambda>x. x \<noteq> CHR ''>'') cs), c # cs) \<in> measure length"
    by simp
next
  fix c :: char and cs :: string
  show "(cs, c # cs) \<in> measure length" by simp
qed

text \<open>
  \<open>re.search(r'```json\s*(.*?)\s*```', content, re.DOTALL)\<close>, group 1, over the
  characters of the buffer. At the leftmost \<open>```json\<close> that is followed by a closing
  fence, the greedy \<open>\s*\<close> takes all the whitespace after the tag, and the lazy group
  grows one character at a time until optional whitespace and a fence follow.
\<close>

fun fence_body :: "string list \<Rightarrow> string list option" where
  "fence_body [] = None"
| "fence_body (c # cs) =
     (if prefix (chars ''```'') (dropWhile is_space (c # cs)) then Some []
      else map_option ((#) c) (fence_body cs))"

fun fence_chars :: "string list \<Rightarrow> string list option" where
  "fence_chars [] = None"
| "fence_chars (c # cs) =
     (if prefix (chars ''```json'') (c # cs)
      then (case fence_body (dropWhile is_space (drop 7 (c # cs))) of
              Some g \<Rightarrow> Some g
            | None \<Rightarrow> fence_chars cs)
      else fence_chars cs)"

definition fence_search :: "string \<Rightarrow> string option" where
  "fence_search content = map_option concat (fence_chars (chars content))"

text \<open>
  \<open>re.search(r'\{(?:[^{}]|{[^{}]*})*\}', content, re.DOTALL)\<close>, group 0. After an
  opening brace, \<open>brace_scan False\<close> reads the outer level and \<open>brace_scan True\<close> the
  inside of a nested pair; the two alternatives of the pattern start with different
  characters and neither can consume a closing brace, so no backtracking finds a match
  that this scan misses. The search returns the match at the leftmost opening brace
  that has one.
\<close>

fun brace_scan :: "bool \<Rightarrow> string \<Rightarrow> string option" where
  "brace_scan inner [] = None"
| "brace_scan False (c # cs) =
     (if c = CHR ''}'' then Some [c]
      else if c = CHR ''{'' then map_option ((#) c) (brace_scan True cs)
      else map_option ((#) c) (brace_scan False cs))"
| "brace_scan True (c # cs) =
     (if c = CHR ''}'' then map_option ((#) c) (brace_scan False cs)
      else if c = CHR ''{'' then None
      else map_option ((#) c) (brace_scan True cs))"

fun brace_search :: "string \<Rightarrow> string option" where
  "brace_search [] = None"
| "brace_search (c # cs) =
     (if c = CHR ''{''
      then (case brace_scan False cs of
              Some m \<Rightarrow> Some (c # m)
            | None \<Rightarrow> brace_search cs)
      else brace_search cs)"

subsection \<open>The backend and the retry loop\<close>

text \<open>
  One invocation of \<open>messages.stream\<close> either raises (anything but a JSON decoding
  error) or streams a text, which the loop accumulates into one buffer. The backend is
  the sequence of its answers by invocation number, so an answer may depend in any way
  on the prompt and on what came before. \<open>json.loads\<close> is the library's decoder, a
  parameter: \<open>None\<close> is \<open>JSONDecodeError\<close>. \<open>jitter k\<close> is the value of the k-th
  \<open>random.uniform(0, 1)\<close>; delays are modelled over the reals.
\<close>

datatype response = Raises string | Streams string

record gen_env =
  backend :: "nat \<Rightarrow> response"
  loads :: "string \<Rightarrow> json option"
  jitter :: "nat \<Rightarrow> real"
  min_characters :: int

record gen_state =
  n_calls :: nat              \<comment> \<open>backend invocations made so far\<close>
  sleeps :: "real list"       \<comment> \<open>the arguments of \<open>time.sleep\<close>, in order\<close>
  logged :: "log_line list"

definition max_retries :: nat where
  "max_retries = 3"

definition is_overloaded :: "string \<Rightarrow> bool" where
  \<comment> \<open>\<open>"overloaded" in str(e).lower()\<close>\<close>
  "is_overloaded msg = contains ''overloaded'' (lower msg)"

text \<open>
  The inner \<open>try\<close> of the \<open>JSONDecodeError\<close> handler: the fenced block if the pattern
  matches, else the brace span if that pattern matches. \<open>None\<close> is the
  \<open>JSONDecodeError\<close> that the inner handler catches.
\<close>

definition extract_json :: "(string \<Rightarrow> json option) \<Rightarrow> string \<Rightarrow> json option" where
  "extract_json decode content =
     (case fence_search content of
        Some g \<Rightarrow> decode (strip g)
      | None \<Rightarrow>
          (case brace_search content of
             Some g \<Rightarrow> decode g
           | None \<Rightarrow> None))"

definition parse_response :: "gen_env \<Rightarrow> string \<Rightarrow> gen_state \<Rightarrow> (exn + json) \<times> gen_state" where
  "parse_response env content s =
     (case loads env content of
        Some a \<Rightarrow> (Inr a, s)
      | None \<Rightarrow>
          (case extract_json (loads env) content of
             Some a \<Rightarrow> (Inr a, s)
           | None \<Rightarrow>
               (Inl NoJsonResponse,
                s\<lparr>logged := logged s @ [Received (take_chars 500 content)]\<rparr>)))"

text \<open>
  \<open>_generate_with_claude\<close>, from the iteration \<open>attempt\<close> of its \<open>for\<close> loop on. An
  exception raised inside the \<open>JSONDecodeError\<close> handler leaves the \<open>try\<close> statement: the
  \<open>except Exception\<close> clause beside it does not see it. A loop that ran out of
  iterations would return Python's \<open>None\<close>.
\<close>

function generate_with_claude :: "gen_env \<Rightarrow> nat \<Rightarrow> gen_state \<Rightarrow> (exn + json) \<times> gen_state" where
  "generate_with_claude env attempt s =
     (if attempt \<ge> max_retries then (Inr JNull, s)
      else
        let s1 = s\<lparr>n_calls := n_calls s + 1\<rparr> in
        case backend env (n_calls s) of
          Streams content \<Rightarrow> parse_response env content s1
        | Raises msg \<Rightarrow>
            if is_overloaded msg \<and> attempt < max_retries - 1
            then
              let wait_time = 2 ^ attempt + jitter env (length (sleeps s1))
              in generate_with_claude env (attempt + 1) (s1\<lparr>sleeps := sleeps s1 @ [wait_time]\<rparr>)
            else (Inl (ApiError msg), s1))"
  by pat_completeness auto
termination
  by (relation "measure (\<lambda>(env, attempt, s). max_retries - attempt)") auto

subsection \<open>Minimum length and the article\<close>

definition dict_get :: "json \<Rightarrow> string \<Rightarrow> json \<Rightarrow> exn + json" where
  \<comment> \<open>\<open>d.get(key, default)\<close>: only a dict has the method\<close>
  "dict_get d key dflt =
     (case d of
        JObj kvs \<Rightarrow> (case map_of kvs key of Some v \<Rightarrow> Inr v | None \<Rightarrow> Inr dflt)
      | _ \<Rightarrow> Inl AttributeError)"

definition dict_item :: "json \<Rightarrow> string \<Rightarrow> exn + json" where
  \<comment> \<open>\<open>d[key]\<close> with a string key\<close>
  "dict_item d key =
     (case d of
        JObj kvs \<Rightarrow> (case map_of kvs key of Some v \<Rightarrow> Inr v | None \<Rightarrow> Inl (KeyError key))
      | _ \<Rightarrow> Inl TypeError)"

definition content_length :: "json \<Rightarrow> exn + int" where
  \<comment> \<open>\<open>len(re.sub(r'<[^>]+>', '', article_data.get('content', '')))\<close>\<close>
  "content_length a =
     (case dict_get a ''content'' (JStr []) of
        Inl e \<Rightarrow> Inl e
      | Inr (JStr c) \<Rightarrow> Inr (int (codepoints (strip_tags c)))
      | Inr _ \<Rightarrow> Inl TypeError)"

text \<open>
  \<open>_expand_article\<close>. The prompt it builds reaches the model only through the backend's
  answer. Whatever the second generation or the look at its content raises, the handler
  logs it and returns the first article.
\<close>

definition expand_article ::
  "gen_env \<Rightarrow> json \<Rightarrow> int \<Rightarrow> string \<Rightarrow> gen_state \<Rightarrow> (exn + json) \<times> gen_state" where
  "expand_article env article_data min_chars episode_url s =
     (case generate_with_claude env 0 s of
        (Inl e, s') \<Rightarrow> (Inr article_data, s'\<lparr>logged := logged s' @ [ExpandFailed e]\<rparr>)
      | (Inr expanded_data, s') \<Rightarrow>
          (case content_length expanded_data of
             Inl e \<Rightarrow> (Inr article_data, s'\<lparr>logged := logged s' @ [ExpandFailed e]\<rparr>)
           | Inr n \<Rightarrow> (Inr expanded_data, s')))"

text \<open>
  \<open>_ensure_minimum_length(self, article_data)\<close>. Its call of \<open>_expand_article\<close> passes
  \<open>episode_url\<close>, a name that is neither a parameter nor a local of this method nor a
  global of the module: evaluating the argument raises \<open>NameError\<close> before
  \<open>_expand_article\<close> is entered.
\<close>

definition ensure_minimum_length :: "gen_env \<Rightarrow> json \<Rightarrow> gen_state \<Rightarrow> (exn + json) \<times> gen_state" where
  "ensure_minimum_length env article_data s =
     (case content_length article_data of
        Inl e \<Rightarrow> (Inl e, s)
      | Inr char_count \<Rightarrow>
          if char_count < min_characters env
          then (Inl (NameError ''episode_url''), s)
          else (Inr article_data, s))"

text \<open>
  \<open>generate_article\<close>. The handler logs and re-raises. The last step is the log line
  that reads \<open>article_data['title']\<close>. With settings whose sections are dicts, fetching
  the reference style and building the prompt raise nothing that reaches the caller.
\<close>

definition generate_article ::
  "gen_env \<Rightarrow> string \<Rightarrow> string \<Rightarrow> gen_state \<Rightarrow> (exn + json) \<times> gen_state" where
  "generate_article env transcript episode_url s =
     (case generate_with_claude env 0 s of
        (Inl e, s1) \<Rightarrow> (Inl e, s1)
      | (Inr article_data, s1) \<Rightarrow>
          (case ensure_minimum_length env article_data s1 of
             (Inl e, s2) \<Rightarrow> (Inl e, s2)
           | (Inr article_data', s2) \<Rightarrow>
               (case dict_item article_data' ''title'' of
                  Inl e \<Rightarrow> (Inl e, s2)
                | Inr t \<Rightarrow> (Inr article_data', s2))))"

definition start :: gen_state where
  "start = \<lparr>n_calls = 0, sleeps = [], logged = []\<rparr>"

subsection \<open>Helpers of the statements and concrete inputs\<close>

definition bump :: "gen_state \<Rightarrow> gen_state" where
  \<comment> \<open>one more backend invocation\<close>
  "bump s = s\<lparr>n_calls := n_calls s + 1\<rparr>"

definition wait :: "gen_env \<Rightarrow> nat \<Rightarrow> gen_state \<Rightarrow> gen_state" where
  \<comment> \<open>the \<open>time.sleep\<close> of iteration \<open>attempt\<close>\<close>
  "wait env attempt s =
     s\<lparr>sleeps := sleeps s @ [2 ^ attempt + jitter env (length (sleeps s))]\<rparr>"

definition answer :: "gen_env \<Rightarrow> response \<Rightarrow> gen_state \<Rightarrow> (exn + json) \<times> gen_state" where
  \<comment> \<open>what the loop returns or raises on an invocation that it does not retry\<close>
  "answer env r s =
     (case r of Streams content \<Rightarrow> parse_response env content s
              | Raises msg \<Rightarrow> (Inl (ApiError msg), s))"

definition retryable :: "response \<Rightarrow> bool" where
  \<comment> \<open>a failure whose message indicates overload\<close>
  "retryable r = (case r of Raises msg \<Rightarrow> is_overloaded msg | Streams content \<Rightarrow> False)"

text \<open>
  The order of strategies in the specification's words: the fenced block, then the brace
  span, the first that decodes.
\<close>

definition extract_in_order :: "(string \<Rightarrow> json option) \<Rightarrow> string \<Rightarrow> json option" where
  "extract_in_order decode content =
     (case (case fence_search content of Some g \<Rightarrow> decode (strip g) | None \<Rightarrow> None) of
        Some a \<Rightarrow> Some a
      | None \<Rightarrow> (case brace_search content of Some g \<Rightarrow> decode g | None \<Rightarrow> None))"

text \<open>
  A balanced brace-delimited span nested at most one level deep: \<open>depth_ok d m\<close> says
  that \<open>m\<close>, read at depth \<open>d\<close> inside the span, never opens a third level and that its
  last character, and no earlier one, closes the outermost brace.
\<close>

fun depth_ok :: "nat \<Rightarrow> string \<Rightarrow> bool" where
  "depth_ok d [] = False"
| "depth_ok d (c # cs) =
     (if c = CHR ''{'' then d = 1 \<and> depth_ok 2 cs
      else if c = CHR ''}'' then (if d = 1 then cs = [] else d = 2 \<and> depth_ok 1 cs)
      else depth_ok d cs)"

definition brace_span :: "string \<Rightarrow> bool" where
  "brace_span b = (case b of [] \<Rightarrow> False | c # m \<Rightarrow> c = CHR ''{'' \<and> depth_ok 1 m)"

definition spaces :: "string \<Rightarrow> bool" where
  \<comment> \<open>a text of whitespace characters only\<close>
  "spaces ws = list_all is_space (chars ws)"

text \<open>
  A decoder for the concrete inputs: it agrees with \<open>json.loads\<close> on the two texts it
  accepts, and the other texts it is asked about below are not JSON.
\<close>

definition sample_text :: string where
  \<open>sample_text = ''{"title": "T", "content": "<p>hello</p>"}''\<close>

definition sample_article :: json where
  "sample_article = JObj [(''title'', JStr ''T''), (''content'', JStr ''<p>hello</p>'')]"

definition sample_loads :: "string \<Rightarrow> json option" where
  "sample_loads = map_of [(sample_text, sample_article), (''{}'', JObj [])]"

definition overload_env :: "nat \<Rightarrow> int \<Rightarrow> gen_env" where
  \<comment> \<open>\<open>k\<close> overload failures in a row, then the sample article; minimum length \<open>m\<close>\<close>
  "overload_env k m =
     \<lparr>backend = (\<lambda>n. if n < k then Raises ''overloaded_error'' else Streams sample_text),
      loads = sample_loads, jitter = (\<lambda>n. 1 / 2), min_characters = m\<rparr>"

definition flaky_env :: gen_env where
  \<comment> \<open>one overload failure, then a failure of another kind\<close>
  "flaky_env =
     \<lparr>backend = (\<lambda>n. if n < 1 then Raises ''overloaded_error'' else Raises ''timeout''),
      loads = sample_loads, jitter = (\<lambda>n. 1 / 2), min_characters = 5\<rparr>"

definition fence_env :: gen_env where
  \<comment> \<open>an answer with a decodable brace span before an empty fenced block\<close>
  "fence_env =
     \<lparr>backend = (\<lambda>n. Streams ''{}```json```''),
      loads = sample_loads, jitter = (\<lambda>n. 1 / 2), min_characters = 0\<rparr>"

definition broken_env :: gen_env where
  \<comment> \<open>every invocation fails, not for overload\<close>
  "broken_env =
     \<lparr>backend = (\<lambda>n. Raises ''timeout''),
      loads = sample_loads, jitter = (\<lambda>n. 1 / 2), min_characters = 5\<rparr>"

section \<open>Publishing client (core/wordpress\_poster.py)\<close>

text \<open>
  The transport and the HTML parser are libraries. A request either raises or returns
  a response with a status, a final URL and a page; of a page the model keeps what the
  code asks BeautifulSoup for: the hidden inputs of the form with id \<open>loginform\<close> (if
  there is such a form), the hidden inputs of every form in document order, and the
  texts of the \<open>div\<close>s of class \<open>error\<close>. An input is its \<open>name\<close> and \<open>value\<close>
  attributes, \<open>None\<close> when absent.
\<close>

type_synonym hidden_input = "string option \<times> string option"

record page =
  login_form :: "hidden_input list option"
  forms :: "hidden_input list list"
  error_divs :: "string list"

datatype http = Raised string | Response nat string page

text \<open>
  The site answers the four requests of one \<open>post_article\<close> call; the answer to a POST
  may depend on the data posted. The session's cookies live in the site's answers.
\<close>

record site =
  get_login :: http
  post_login :: "(string \<times> json) list \<Rightarrow> http"
  get_editor :: http
  post_entry :: "(string \<times> json) list \<Rightarrow> http"

text \<open>What the client does to the outside, in order.\<close>

datatype event =
    Get string
  | Post string "(string \<times> json) list"
  | Sleep nat

record poster =
  wp_site_url :: string
  wp_username :: string
  wp_password :: string
  wp_status :: string

function remove_all :: "string \<Rightarrow> string \<Rightarrow> string" where
  \<comment> \<open>\<open>s.replace(p, '')\<close> for a non-empty \<open>p\<close>\<close>
  "remove_all p [] = []"
| "remove_all p (c # cs) =
     (if p \<noteq> [] \<and> prefix p (c # cs) then remove_all p (drop (length p) (c # cs))
      else c # remove_all p cs)"
  by pat_completeness auto
termination
  by (relation "measure (\<lambda>(p, s). length s)") auto

definition rstrip_slash :: "string \<Rightarrow> string" where
  \<comment> \<open>\<open>s.rstrip('/')\<close>\<close>
  "rstrip_slash s = rev (dropWhile (\<lambda>c. c = CHR ''/'') (rev s))"

text \<open>\<open>WordPressPoster.__init__\<close>, for settings whose values are strings.\<close>

definition new_poster :: "string \<Rightarrow> string \<Rightarrow> string \<Rightarrow> string \<Rightarrow> poster" where
  "new_poster site_url username password status =
     (let u = rstrip_slash site_url;
          u' = (if suffix ''/wp-admin'' u then remove_all ''/wp-admin'' u else u)
      in \<lparr>wp_site_url = u', wp_username = username, wp_password = password,
          wp_status = status\<rparr>)"

definition validate_settings :: "poster \<Rightarrow> bool" where
  "validate_settings p = (wp_site_url p \<noteq> [] \<and> wp_username p \<noteq> [] \<and> wp_password p \<noteq> [])"

definition login_url :: "poster \<Rightarrow> string" where
  "login_url p = wp_site_url p @ ''/wp-login.php''"

definition new_post_url :: "poster \<Rightarrow> string" where
  "new_post_url p = wp_site_url p @ ''/wp-admin/post-new.php''"

definition submit_url :: "poster \<Rightarrow> string" where
  "submit_url p = wp_site_url p @ ''/wp-admin/post.php''"

definition raise_for_status :: "http \<Rightarrow> exn + (string \<times> page)" where
  \<comment> \<open>the request and \<open>response.raise_for_status()\<close>: the final URL and the page, or the exception\<close>
  "raise_for_status r =
     (case r of
        Raised msg \<Rightarrow> Inl (TransportError msg)
      | Response code url pg \<Rightarrow>
          if 400 \<le> code \<and> code < 600 then Inl (HTTPError code) else Inr (url, pg))"

text \<open>
  Harvesting hidden fields into a dict: an input counts when both attributes are
  present and non-empty; a later input of the same name overwrites the value.
\<close>

definition harvest_step :: "hidden_input \<Rightarrow> (string \<times> string) list \<Rightarrow> (string \<times> string) list" where
  "harvest_step = (\<lambda>(name, val) d.
     case (name, val) of
       (Some n, Some v) \<Rightarrow> if n \<noteq> [] \<and> v \<noteq> [] then AList.update n v d else d
     | _ \<Rightarrow> d)"

definition harvest :: "hidden_input list \<Rightarrow> (string \<times> string) list" where
  "harvest inputs = fold harvest_step inputs []"

definition label_login :: string where
  \<comment> \<open>the UTF-8 bytes of the submit button's Japanese label\<close>
  "label_login = [CHR 0xE3, CHR 0x83, CHR 0xAD, CHR 0xE3, CHR 0x82, CHR 0xB0,
                  CHR 0xE3, CHR 0x82, CHR 0xA4, CHR 0xE3, CHR 0x83, CHR 0xB3]"

definition label_publish :: string where
  "label_publish = [CHR 0xE5, CHR 0x85, CHR 0xAC, CHR 0xE9, CHR 0x96, CHR 0x8B]"

definition label_draft :: string where
  "label_draft = [CHR 0xE4, CHR 0xB8, CHR 0x8B, CHR 0xE6, CHR 0x9B, CHR 0xB8,
                  CHR 0xE3, CHR 0x81, CHR 0x8D, CHR 0xE3, CHR 0x81, CHR 0xA8,
                  CHR 0xE3, CHR 0x81, CHR 0x97, CHR 0xE3, CHR 0x81, CHR 0xA6,
                  CHR 0xE4, CHR 0xBF, CHR 0x9D, CHR 0xE5, CHR 0xAD, CHR 0x98]"

definition login_data :: "poster \<Rightarrow> (string \<times> string) list \<Rightarrow> (string \<times> json) list" where
  "login_data p hidden_fields =
     fold (\<lambda>(k, v). AList.update k (JStr v)) hidden_fields
       [(''log'', JStr (wp_username p)), (''pwd'', JStr (wp_password p)),
        (''wp-submit'', JStr label_login),
        (''redirect_to'', JStr (wp_site_url p @ ''/wp-admin/'')),
        (''testcookie'', JStr ''1'')]"

text \<open>The body of \<open>_login\<close>'s \<open>try\<close>, then \<open>_login\<close> with its handler.\<close>

definition login_body :: "site \<Rightarrow> poster \<Rightarrow> event list \<Rightarrow> (exn + bool) \<times> event list" where
  "login_body st p tr =
     (let tr1 = tr @ [Get (login_url p)] in
      case raise_for_status (get_login st) of
        Inl e \<Rightarrow> (Inl e, tr1)
      | Inr (url, pg) \<Rightarrow>
          (case login_form pg of
             None \<Rightarrow> (Inr False, tr1)
           | Some inputs \<Rightarrow>
               let data = login_data p (harvest inputs);
                   tr2 = tr1 @ [Post (login_url p) data]
               in case raise_for_status (post_login st data) of
                    Inl e \<Rightarrow> (Inl e, tr2)
                  | Inr (url', pg') \<Rightarrow>
                      (Inr (contains ''wp-admin'' url' \<and> \<not> contains ''login'' url'), tr2)))"

definition login :: "site \<Rightarrow> poster \<Rightarrow> event list \<Rightarrow> bool \<times> event list" where
  "login st p tr =
     (case login_body st p tr of
        (Inl e, tr') \<Rightarrow> (False, tr')
      | (Inr b, tr') \<Rightarrow> (b, tr'))"

definition required_fields :: "string list" where
  "required_fields = [''_wpnonce'', ''user_ID'', ''post_ID'']"

definition important_fields :: "string list" where
  "important_fields = [''_wpnonce'', ''_wp_http_referer'', ''user_ID'', ''post_ID'',
                       ''post_type'', ''action'', ''originalaction'']"

definition sliceable :: "json \<Rightarrow> exn + unit" where
  \<comment> \<open>\<open>x[:50]\<close>: strings and lists can be sliced\<close>
  "sliceable x = (case x of JStr s \<Rightarrow> Inr () | JArr xs \<Rightarrow> Inr () | _ \<Rightarrow> Inl TypeError)"

definition post_data :: "poster \<Rightarrow> json \<Rightarrow> (string \<times> string) list \<Rightarrow> exn + (string \<times> json) list" where
  "post_data p article_data hidden_fields =
     (case dict_item article_data ''title'' of
        Inl e \<Rightarrow> Inl e
      | Inr title \<Rightarrow>
          (case dict_item article_data ''content'' of
             Inl e \<Rightarrow> Inl e
           | Inr body \<Rightarrow>
               (case dict_get article_data ''summary'' (JStr []) of
                  Inl e \<Rightarrow> Inl e
                | Inr summary \<Rightarrow>
                    let publish = (wp_status p = ''publish'');
                        label = JStr (if publish then label_publish else label_draft);
                        base = [(''post_title'', title), (''content'', body),
                                (''excerpt'', summary),
                                (''post_status'', JStr (if publish then ''publish'' else ''draft'')),
                                (''publish'', label), (''save'', label)];
                        data = fold (\<lambda>field d.
                                       case map_of hidden_fields field of
                                         Some v \<Rightarrow> AList.update field (JStr v) d
                                       | None \<Rightarrow> d)
                                    important_fields base
                    in (case sliceable title of
                          Inl e \<Rightarrow> Inl e
                        | Inr u \<Rightarrow> Inr data))))"

definition published :: "string \<Rightarrow> bool" where
  \<comment> \<open>the classification of the final URL of the submission\<close>
  "published url =
     (if contains ''post.php'' url \<and> (contains ''message=6'' url \<or> contains ''message=1'' url)
      then True
      else if contains ''edit.php'' url then True
      else False)"

text \<open>The body of \<open>_post_article\<close>'s \<open>try\<close>, then \<open>_post_article\<close> with its handler.\<close>

definition post_body :: "site \<Rightarrow> poster \<Rightarrow> json \<Rightarrow> event list \<Rightarrow> (exn + bool) \<times> event list" where
  "post_body st p article_data tr =
     (let tr1 = tr @ [Get (new_post_url p)] in
      case raise_for_status (get_editor st) of
        Inl e \<Rightarrow> (Inl e, tr1)
      | Inr (url, pg) \<Rightarrow>
          let hidden_fields = (case forms pg of [] \<Rightarrow> [] | main_form # others \<Rightarrow> harvest main_form)
          in if \<exists>field \<in> set required_fields. map_of hidden_fields field = None
             then (Inr False, tr1)
             else
               let hidden_fields' =
                     AList.update ''originalaction'' ''editpost''
                       (AList.update ''action'' ''editpost'' hidden_fields)
               in case post_data p article_data hidden_fields' of
                    Inl e \<Rightarrow> (Inl e, tr1)
                  | Inr data \<Rightarrow>
                      let tr2 = tr1 @ [Post (submit_url p) data]
                      in case raise_for_status (post_entry st data) of
                           Inl e \<Rightarrow> (Inl e, tr2)
                         | Inr (url', pg') \<Rightarrow> (Inr (published url'), tr2))"

definition post_article_inner :: "site \<Rightarrow> poster \<Rightarrow> json \<Rightarrow> event list \<Rightarrow> bool \<times> event list" where
  \<comment> \<open>\<open>_post_article\<close>\<close>
  "post_article_inner st p article_data tr =
     (case post_body st p article_data tr of
        (Inl e, tr') \<Rightarrow> (False, tr')
      | (Inr b, tr') \<Rightarrow> (b, tr'))"

text \<open>
  \<open>_post_via_browser_automation\<close>: the calls it makes return and do not raise, and its
  own handler turns anything else into False. \<open>post_article\<close> is the public entry; its
  result is a sum, so that returning without raising is a statement about it.
\<close>

definition post_via_browser_automation ::
  "site \<Rightarrow> poster \<Rightarrow> json \<Rightarrow> (exn + bool) \<times> event list" where
  "post_via_browser_automation st p article_data =
     (case login st p [] of
        (False, tr) \<Rightarrow> (Inr False, tr)
      | (True, tr) \<Rightarrow>
          (case post_article_inner st p article_data (tr @ [Sleep 1]) of
             (b, tr') \<Rightarrow> (Inr b, tr')))"

definition post_article :: "site \<Rightarrow> poster \<Rightarrow> json \<Rightarrow> (exn + bool) \<times> event list" where
  "post_article st p article_data =
     (if \<not> validate_settings p then (Inr False, [])
      else post_via_browser_automation st p article_data)"

subsection \<open>Concrete sites\<close>

definition blank_page :: page where
  "blank_page = \<lparr>login_form = None, forms = [], error_divs = []\<rparr>"

definition login_page :: page where
  "login_page =
     \<lparr>login_form = Some [(Some ''testcookie'', Some ''1''), (Some ''redirect_to'', None)],
      forms = [[(Some ''testcookie'', Some ''1''), (Some ''redirect_to'', None)]],
      error_divs = []\<rparr>"

definition editor_page :: "string \<Rightarrow> page" where
  \<comment> \<open>an editor page whose anti-forgery token has the given value\<close>
  "editor_page nonce =
     \<lparr>login_form = None,
      forms = [[(Some ''_wpnonce'', Some nonce), (Some ''user_ID'', Some ''1''),
                (Some ''post_ID'', Some ''7'')]],
      error_divs = []\<rparr>"

definition good_site :: site where
  "good_site =
     \<lparr>get_login = Response 200 ''http://blog/wp-login.php'' login_page,
      post_login = (\<lambda>d. Response 200 ''http://blog/wp-admin/'' blank_page),
      get_editor = Response 200 ''http://blog/wp-admin/post-new.php'' (editor_page ''abc''),
      post_entry = (\<lambda>d. Response 200 ''http://blog/wp-admin/post.php?post=7&action=edit&message=6''
                               blank_page)\<rparr>"

definition rejecting_site :: site where
  \<comment> \<open>the login lands on the login page again\<close>
  "rejecting_site =
     good_site\<lparr>post_login := (\<lambda>d. Response 200 ''http://blog/wp-login.php'' login_page)\<rparr>"

definition changed_site :: site where
  \<comment> \<open>the editor's form has an empty anti-forgery token\<close>
  "changed_site =
     good_site\<lparr>get_editor := Response 200 ''http://blog/wp-admin/post-new.php'' (editor_page [])\<rparr>"

definition blog :: poster where
  "blog = new_poster ''http://blog/wp-admin/'' ''admin'' ''secret'' ''draft''"

section \<open>Pipeline orchestrator (app.py)\<close>

text \<open>
  The task registry is \<open>app.processing_status\<close>, a dict from task id to a dict of
  fields; the field \<open>result\<close> is absent until an article is stored. Labels and status
  texts are Japanese strings with values interpolated; the model names each by a
  constructor that carries the interpolated values.
\<close>

datatype step_label =
    Started | AudioDownload | Transcription | ArticleGeneration | WordPressPosting | Finished

datatype message =
    ProcessStarted
  | DownloadingFrom string
  | DownloadComplete
  | TranscribingNow
  | TranscribeComplete nat
  | GeneratingArticle
  | GenerateComplete json
  | PostingNow
  | AllComplete
  | GeneratedButPostFailed
  | GeneratedPostError exn
  | GeneratedPostSkipped
  | ProcessingError exn
  | ErrorDuringProcessing

datatype level = INFO | ERROR

record task =
  current_step :: nat
  total_steps :: nat
  step_name :: step_label
  status :: message
  error :: "message option"
  timestamp :: "string option"
  logs :: "(string \<times> level \<times> message) list"
  result :: "json option"

type_synonym task_id = string

text \<open>
  The stages are collaborators: each either raises or returns. \<open>merge_settings\<close> is the
  loading and merging of the settings, returning the \<open>wordpress\<close> section of the merged
  tree; \<open>publish\<close> is the construction of the poster and its \<open>post_article\<close>.
  \<open>clock k\<close> is the k-th reading of \<open>datetime.now()\<close>, formatted.
\<close>

record job =
  merge_settings :: "exn + (string \<times> json) list"
  download_audio :: "exn + string"
  transcribe_audio :: "exn + string"
  generate :: "exn + json"
  publish :: "exn + bool"
  clock :: "nat \<Rightarrow> string"

text \<open>
  What the run does to the outside that the properties speak of: the call of the
  publishing stage, with the task's \<open>result\<close> field as it is stored at that moment.
\<close>

datatype stage_event = PublishCalled "json option"

record run_state =
  registry :: "task_id \<rightharpoonup> task"
  ticks :: nat
  trace :: "stage_event list"

definition result_of :: "run_state \<Rightarrow> task_id \<Rightarrow> json option" where
  "result_of s tid = (case registry s tid of None \<Rightarrow> None | Some t \<Rightarrow> result t)"

definition fresh_task :: task where
  \<comment> \<open>\<open>{'logs': []}\<close>; \<open>update_status\<close> sets the other fields at once\<close>
  "fresh_task = \<lparr>current_step = 0, total_steps = 0, step_name = Started, status = ProcessStarted,
                  error = None, timestamp = None, logs = [], result = None\<rparr>"

definition update_status ::
  "job \<Rightarrow> task_id \<Rightarrow> nat \<Rightarrow> nat \<Rightarrow> step_label \<Rightarrow> message \<Rightarrow> message option \<Rightarrow> run_state \<Rightarrow> run_state" where
  "update_status j tid step total_n name status_msg err s =
     (let ts = clock j (ticks s);
          t0 = (case registry s tid of None \<Rightarrow> fresh_task | Some t \<Rightarrow> t);
          t1 = t0\<lparr>current_step := step, total_steps := total_n, step_name := name,
                   status := status_msg, error := err, timestamp := Some ts\<rparr>;
          entry = (ts, (case err of None \<Rightarrow> INFO | Some e \<Rightarrow> ERROR),
                       (case err of None \<Rightarrow> status_msg | Some e \<Rightarrow> e));
          t2 = t1\<lparr>logs := logs t1 @ [entry]\<rparr>
      in s\<lparr>registry := (registry s)(tid \<mapsto> t2), ticks := ticks s + 1\<rparr>)"

definition truthy :: "json option \<Rightarrow> bool" where
  \<comment> \<open>the truth value of \<open>d.get(key)\<close>\<close>
  "truthy v =
     (case v of
        None \<Rightarrow> False
      | Some JNull \<Rightarrow> False
      | Some (JBool b) \<Rightarrow> b
      | Some (JNum x) \<Rightarrow> x \<noteq> 0
      | Some (JStr s) \<Rightarrow> s \<noteq> []
      | Some (JArr xs) \<Rightarrow> xs \<noteq> []
      | Some (JObj kvs) \<Rightarrow> kvs \<noteq> [])"

text \<open>
  The body of the \<open>try\<close> of \<open>process_podcast_background\<close>: the exception it ends with
  (if any), the local \<open>article_data\<close> (if bound by then), and the state.
\<close>

definition publish_stage :: "job \<Rightarrow> task_id \<Rightarrow> run_state \<Rightarrow> run_state" where
  \<comment> \<open>the inner \<open>try\<close> around the poster, with its handler\<close>
  "publish_stage j tid s =
     (let s' = s\<lparr>trace := trace s @ [PublishCalled (result_of s tid)]\<rparr>
      in case publish j of
           Inr True \<Rightarrow> update_status j tid 4 4 Finished AllComplete None s'
         | Inr False \<Rightarrow> update_status j tid 4 4 Finished GeneratedButPostFailed None s'
         | Inl e \<Rightarrow> update_status j tid 4 4 Finished (GeneratedPostError e) None s')"

definition after_generation ::
  "job \<Rightarrow> task_id \<Rightarrow> (string \<times> json) list \<Rightarrow> json \<Rightarrow> run_state \<Rightarrow> exn option \<times> run_state" where
  "after_generation j tid wp_settings article_data s =
     (case dict_item article_data ''title'' of
        Inl e \<Rightarrow> (Some e, s)
      | Inr title \<Rightarrow>
          let s1 = update_status j tid 3 4 ArticleGeneration (GenerateComplete title) None s
          in case registry s1 tid of
               None \<Rightarrow> (Some (KeyError tid), s1)
             | Some t \<Rightarrow>
                 let s2 = s1\<lparr>registry := (registry s1)(tid \<mapsto> t\<lparr>result := Some article_data\<rparr>)\<rparr>;
                     s3 = update_status j tid 4 4 WordPressPosting PostingNow None s2
                 in case sliceable (case map_of wp_settings ''site_url'' of
                                      None \<Rightarrow> JStr ''None'' | Some v \<Rightarrow> v) of
                      Inl e \<Rightarrow> (Some e, s3)
                    | Inr u \<Rightarrow>
                        if truthy (map_of wp_settings ''site_url'')
                           \<and> truthy (map_of wp_settings ''username'')
                           \<and> truthy (map_of wp_settings ''password'')
                        then (None, publish_stage j tid s3)
                        else (None, update_status j tid 4 4 Finished GeneratedPostSkipped None s3))"

definition pipeline ::
  "job \<Rightarrow> task_id \<Rightarrow> string \<Rightarrow> run_state \<Rightarrow> exn option \<times> json option \<times> run_state" where
  "pipeline j tid file_url s =
     (case merge_settings j of
        Inl e \<Rightarrow> (Some e, None, s)
      | Inr wp_settings \<Rightarrow>
          let s1 = update_status j tid 1 4 AudioDownload (DownloadingFrom file_url) None s
          in case download_audio j of
               Inl e \<Rightarrow> (Some e, None, s1)
             | Inr audio_path \<Rightarrow>
                 let s2 = update_status j tid 1 4 AudioDownload DownloadComplete None s1;
                     s3 = update_status j tid 2 4 Transcription TranscribingNow None s2
                 in case transcribe_audio j of
                      Inl e \<Rightarrow> (Some e, None, s3)
                    | Inr transcript \<Rightarrow>
                        let s4 = update_status j tid 2 4 Transcription
                                   (TranscribeComplete (codepoints transcript)) None s3;
                            s5 = update_status j tid 3 4 ArticleGeneration GeneratingArticle None s4
                        in case generate j of
                             Inl e \<Rightarrow> (Some e, None, s5)
                           | Inr article_data \<Rightarrow>
                               (case after_generation j tid wp_settings article_data s5 of
                                  (e, s6) \<Rightarrow> (e, Some article_data, s6)))"

text \<open>\<open>process_podcast_background\<close>: the body and the handler of its \<open>except Exception\<close>.\<close>

definition process_podcast_background :: "job \<Rightarrow> task_id \<Rightarrow> string \<Rightarrow> run_state \<Rightarrow> run_state" where
  "process_podcast_background j tid file_url s =
     (case pipeline j tid file_url s of
        (None, article, s') \<Rightarrow> s'
      | (Some e, article, s') \<Rightarrow>
          (case registry s' tid of
             None \<Rightarrow> s'
           | Some t \<Rightarrow>
               let t1 = (case article of None \<Rightarrow> t | Some a \<Rightarrow> t\<lparr>result := Some a\<rparr>);
                   t2 = t1\<lparr>error := Some (ProcessingError e), status := ErrorDuringProcessing\<rparr>;
                   t3 = t2\<lparr>logs := logs t2 @ [(clock j (ticks s'), ERROR, ProcessingError e)]\<rparr>
               in s'\<lparr>registry := (registry s')(tid \<mapsto> t3), ticks := ticks s' + 1\<rparr>))"

definition sample_job :: "exn + bool \<Rightarrow> job" where
  \<comment> \<open>a job whose first three stages succeed, with complete publishing settings\<close>
  "sample_job p =
     \<lparr>merge_settings = Inr [(''site_url'', JStr ''http://blog''), (''username'', JStr ''admin''),
                              (''password'', JStr ''secret'')],
      download_audio = Inr ''/tmp/podcast.m4a'', transcribe_audio = Inr ''hello'',
      generate = Inr sample_article, publish = p, clock = (\<lambda>k. ''12:00:00'')\<rparr>"

definition no_tasks :: run_state where
  "no_tasks = \<lparr>registry = Map.empty, ticks = 0, trace = []\<rparr>"

section \<open>Verified properties\<close>

subsection \<open>Quota ledger\<close>

lemma cutoff_before_today:
  "get_today_key t = d \<Longrightarrow> \<not> d < (jst_now t - 7 * usec_per_day) div usec_per_day"
  by (simp add: get_today_key_def usec_per_day_def usec_per_hour_def)

lemma cleanup_keeps_today:
  "get_today_key t = d \<Longrightarrow> cleanup_old_logs t l d = l d"
  using cutoff_before_today [of t d] by (simp add: cleanup_old_logs_def Let_def)

lemma cleanup_single:
  "get_today_key t = d \<Longrightarrow> cleanup_old_logs t (Map.empty(d \<mapsto> r)) = Map.empty(d \<mapsto> r)"
  using cutoff_before_today [of t d] by (auto simp: cleanup_old_logs_def Let_def)

lemma total_record_ip [simp]: "total (record_ip ip r) = total r"
  by (simp add: record_ip_def)

lemma use_quota_refused:
  "fst (use_quota limit dk f ip clk) = (False, LimitReached) \<Longrightarrow>
   snd (use_quota limit dk f ip clk) = f"
  by (auto simp: use_quota_def Let_def save_usage_log_def
      split: if_splits prod.splits disk.splits)


lemma use_quota_success_total:
  assumes "on_day d clk" and "fst (fst (use_quota limit dk f ip clk))"
  shows "stored_total (snd (use_quota limit dk f ip clk)) d = stored_total f d + 1
         \<and> stored_total f d < limit"
  using assms
  by (auto simp: use_quota_def Let_def save_usage_log_def on_day_def stored_total_def
      get_usage_info_def load_usage_log_def cleanup_keeps_today empty_day_def
      split: if_splits prod.splits option.splits disk.splits)

lemma on_day_clk0: "on_day 0 clk0"
  by (simp add: on_day_def clk0_def get_today_key_def jst_now_def usec_per_day_def
      usec_per_hour_def)

lemma first_use_succeeds: "fst (fst (use_quota 1 Writes Missing None clk0))"
  by (simp add: use_quota_def get_usage_info_def load_usage_log_def empty_day_def
      save_usage_log_def Let_def)

text \<open>
  Claim C3. In a serialized run of \<open>use_quota\<close> calls whose clock readings all fall on
  one day, the total stored for that day is at most \<open>daily_limit\<close> after every call that
  returned True, and every call that was refused for the limit left the file as it
  found it.
\<close>

theorem quota_total_bounded:
  assumes "\<forall>(dk, ip, clk) \<in> set calls. on_day d clk"
  shows "\<forall>(pre, res, post) \<in> set (run_consumes limit f calls).
           (fst res \<longrightarrow> stored_total post d \<le> limit) \<and>
           (res = (False, LimitReached) \<longrightarrow> post = pre)"
  using assms
proof (induction calls arbitrary: f)
  case Nil
  then show ?case by simp
next
  case (Cons c cs)
  obtain dk ip clk where c: "c = (dk, ip, clk)" by (cases c) auto
  from Cons.prems c have day: "on_day d clk" and rest: "\<forall>(dk, ip, clk) \<in> set cs. on_day d clk"
    by auto
  obtain res f' where u: "use_quota limit dk f ip clk = (res, f')"
    by (cases "use_quota limit dk f ip clk") auto
  have ok: "fst res \<Longrightarrow> stored_total f' d \<le> limit"
    using use_quota_success_total [OF day, of limit dk f ip] u by simp
  have no: "res = (False, LimitReached) \<Longrightarrow> f' = f"
    using use_quota_refused [of limit dk f ip clk] u by simp
  show ?case
    using Cons.IH [OF rest, of f'] ok no by (auto simp: c u)
qed

theorem quota_total_bounded_witness:
  "on_day 0 clk0 \<and> fst (fst (use_quota 1 Writes Missing None clk0))
   \<and> stored_total (snd (use_quota 1 Writes Missing None clk0)) 0 \<le> 1"
proof -
  have h: "\<forall>(dk, ip, clk) \<in> set [(Writes, None, clk0)]. on_day 0 clk"
    by (simp add: on_day_clk0)
  from quota_total_bounded [OF h, of 1 Missing] first_use_succeeds
  have "stored_total (snd (use_quota 1 Writes Missing None clk0)) 0 \<le> 1"
    by (simp add: split_def)
  with first_use_succeeds on_day_clk0 show ?thesis by simp
qed









text \<open>
  Claim C10. When the usage-log file is missing, unreadable or not valid JSON and the
  configured limit is positive, \<open>get_usage_info\<close> reports nothing used, the full limit
  remaining and can_use = True; \<open>use_quota\<close> does not refuse for the limit, and, when the
  write goes through, it succeeds and leaves a ledger holding only today's key with a
  fresh record of total 1: whatever the file held before is gone.
\<close>

theorem corrupt_store_resets:
  assumes "f = Missing \<or> f = Unreadable \<or> f = InvalidJson" and "0 < limit"
  shows "total_used (get_usage_info limit f ip t1 t2) = 0 \<and>
         remaining (get_usage_info limit f ip t1 t2) = limit \<and>
         can_use (get_usage_info limit f ip t1 t2) \<and>
         fst (use_quota limit dk f ip clk) \<noteq> (False, LimitReached) \<and>
         (dk = Writes \<and> on_day d clk \<longrightarrow>
            use_quota limit dk f ip clk =
              ((True, Recorded),
               Stored (Map.empty(d \<mapsto> record_ip ip \<lparr>total = 1, ips = Map.empty\<rparr>))))"
proof -
  have l: "load_usage_log f = Map.empty" using assms(1) by (auto simp: load_usage_log_def)
  have i: "total_used (get_usage_info limit f ip t1 t2) = 0 \<and>
         remaining (get_usage_info limit f ip t1 t2) = limit \<and>
         can_use (get_usage_info limit f ip t1 t2)" for t1 t2
    using assms(2) by (simp add: get_usage_info_def l Let_def empty_day_def)
  have p: "fst (use_quota limit dk f ip clk) \<noteq> (False, LimitReached)"
    using i [of "at_info_key clk" "at_info_reset clk"]
    by (simp add: use_quota_def Let_def save_usage_log_def split_def split: disk.splits)
  have r: "use_quota limit dk f ip clk =
              ((True, Recorded),
               Stored (Map.empty(d \<mapsto> record_ip ip \<lparr>total = 1, ips = Map.empty\<rparr>)))"
    if "dk = Writes" and "on_day d clk"
    using i [of "at_info_key clk" "at_info_reset clk"] that
    by (simp add: use_quota_def Let_def save_usage_log_def l on_day_def empty_day_def
        cleanup_single)
  show ?thesis using i p r by blast
qed

theorem corrupt_store_resets_witness:
  "(InvalidJson = Missing \<or> InvalidJson = Unreadable \<or> InvalidJson = InvalidJson) \<and>
   (0::int) < 5 \<and> on_day 0 clk0 \<and>
   can_use (get_usage_info 5 InvalidJson (Some ''10.0.0.1'') 0 0) \<and>
   use_quota 5 Writes InvalidJson (Some ''10.0.0.1'') clk0 =
     ((True, Recorded),
      Stored (Map.empty(0 \<mapsto> record_ip (Some ''10.0.0.1'') \<lparr>total = 1, ips = Map.empty\<rparr>)))"
proof -
  have a: "InvalidJson = Missing \<or> InvalidJson = Unreadable \<or> InvalidJson = InvalidJson"
    by simp
  have b: "(0::int) < 5" by simp
  note t = corrupt_store_resets [OF a b, of "Some ''10.0.0.1''" 0 0 Writes clk0 0]
  have c: "can_use (get_usage_info 5 InvalidJson (Some ''10.0.0.1'') 0 0)"
    using t by (elim conjE)
  have d: "Writes = Writes \<and> on_day 0 clk0 \<longrightarrow>
     use_quota 5 Writes InvalidJson (Some ''10.0.0.1'') clk0 =
     ((True, Recorded),
      Stored (Map.empty(0 \<mapsto> record_ip (Some ''10.0.0.1'') \<lparr>total = 1, ips = Map.empty\<rparr>)))"
    using t by (elim conjE)
  have e: "use_quota 5 Writes InvalidJson (Some ''10.0.0.1'') clk0 =
     ((True, Recorded),
      Stored (Map.empty(0 \<mapsto> record_ip (Some ''10.0.0.1'') \<lparr>total = 1, ips = Map.empty\<rparr>)))"
    by (rule mp [OF d]) (intro conjI refl on_day_clk0)
  show ?thesis by (intro conjI a b on_day_clk0 c e)
qed

subsection \<open>Generation client\<close>

declare generate_with_claude.simps [simp del]

lemma gwc_retry:
  "attempt < max_retries - 1 \<Longrightarrow> retryable (backend env (n_calls s)) \<Longrightarrow>
   generate_with_claude env attempt s = generate_with_claude env (attempt + 1) (wait env attempt (bump s))"
  by (subst generate_with_claude.simps)
     (auto simp: retryable_def wait_def bump_def Let_def max_retries_def split: response.splits)

lemma gwc_final:
  "attempt < max_retries \<Longrightarrow> \<not> (retryable (backend env (n_calls s)) \<and> attempt < max_retries - 1) \<Longrightarrow>
   generate_with_claude env attempt s = answer env (backend env (n_calls s)) (bump s)"
  by (subst generate_with_claude.simps)
     (auto simp: retryable_def answer_def bump_def Let_def max_retries_def split: response.splits)

lemma parse_response_frame:
  "n_calls (snd (parse_response env c s)) = n_calls s \<and> sleeps (snd (parse_response env c s)) = sleeps s"
  by (simp add: parse_response_def split: option.splits)

lemma answer_frame:
  "n_calls (snd (answer env r s)) = n_calls s \<and> sleeps (snd (answer env r s)) = sleeps s"
  by (simp add: answer_def parse_response_frame split: response.splits)

lemma gwc_unrolled:
  "generate_with_claude env 0 s =
     (let b0 = backend env (n_calls s); b1 = backend env (n_calls s + 1);
          b2 = backend env (n_calls s + 2)
      in if \<not> retryable b0 then answer env b0 (bump s)
         else if \<not> retryable b1 then answer env b1 (bump (wait env 0 (bump s)))
         else answer env b2 (bump (wait env 1 (bump (wait env 0 (bump s))))))"
proof -
  let ?s1 = "wait env 0 (bump s)"
  let ?s2 = "wait env 1 (bump ?s1)"
  have n1: "n_calls ?s1 = n_calls s + 1" by (simp add: wait_def bump_def)
  have n2: "n_calls ?s2 = n_calls s + 2" by (simp add: wait_def bump_def)
  show ?thesis
  proof (cases "retryable (backend env (n_calls s))")
    case False
    then show ?thesis using gwc_final [of 0 env s] by (simp add: max_retries_def Let_def)
  next
    case r0: True
    have "generate_with_claude env 0 s = generate_with_claude env (0 + 1) ?s1"
      by (rule gwc_retry) (use r0 in \<open>simp_all add: max_retries_def\<close>)
    then have e0: "generate_with_claude env 0 s = generate_with_claude env 1 ?s1"
      by (simp only: add_0)
    show ?thesis
    proof (cases "retryable (backend env (n_calls s + 1))")
      case False
      then show ?thesis using e0 r0 gwc_final [of 1 env ?s1] n1
        by (simp add: max_retries_def Let_def)
    next
      case r1: True
      have "generate_with_claude env 1 ?s1 = generate_with_claude env (1 + 1) ?s2"
        by (rule gwc_retry) (use r1 n1 in \<open>simp_all add: max_retries_def\<close>)
      then have e1: "generate_with_claude env 1 ?s1 = generate_with_claude env 2 ?s2"
        by (simp only: one_add_one)
      have "generate_with_claude env 2 ?s2 = answer env (backend env (n_calls s + 2)) (bump ?s2)"
        using gwc_final [of 2 env ?s2] n2 by (simp add: max_retries_def)
      then show ?thesis using e0 e1 r0 r1 by (simp add: Let_def)
    qed
  qed
qed

lemma fst_parse_response: "fst (parse_response env c s) = fst (parse_response env c s')"
  by (simp add: parse_response_def split: option.splits)

lemma answer_Raises: "fst (answer env (Raises msg) s) = Inl (ApiError msg)"
  by (simp add: answer_def)

lemma answer_Streams: "fst (answer env (Streams c) s) = fst (parse_response env c s')"
  using fst_parse_response [of env c s s'] by (simp add: answer_def)

text \<open>
  Claim C5. \<open>_generate_with_claude\<close> makes at most three invocations. It makes one
  more only after a failure whose message indicates overload, and as long as the budget
  lasts it always does so; before the retry number i (from 0) it sleeps 2 ^ i plus the
  jitter drawn then, so 1 and then 2 time units plus a jitter, each delay within one
  unit of its base when the jitter lies between 0 and 1. The invocation it stops at
  decides the result: a failure is raised as it is, a streamed text goes to the parser,
  and nothing is invoked after it.
\<close>

theorem retry_policy:
  "(let r = generate_with_claude env 0 s;
        n = n_calls s;
        k = length (sleeps (snd r)) - length (sleeps s)
    in k \<le> 2 \<and> n_calls (snd r) = n + k + 1 \<and>
       (\<forall>i<k. retryable (backend env (n + i))) \<and>
       (k < 2 \<longrightarrow> \<not> retryable (backend env (n + k))) \<and>
       sleeps (snd r) = sleeps s @ map (\<lambda>i. 2 ^ i + jitter env (length (sleeps s) + i)) [0..<k] \<and>
       (\<forall>msg. backend env (n + k) = Raises msg \<longrightarrow> fst r = Inl (ApiError msg)) \<and>
       (\<forall>c. backend env (n + k) = Streams c \<longrightarrow> fst r = fst (parse_response env c s)) \<and>
       ((\<forall>j. 0 \<le> jitter env j \<and> jitter env j \<le> 1) \<longrightarrow>
          (\<forall>i<k. 2 ^ i \<le> sleeps (snd r) ! (length (sleeps s) + i) \<and>
                  sleeps (snd r) ! (length (sleeps s) + i) \<le> 2 ^ i + 1)))"
proof -
  let ?b0 = "backend env (n_calls s)"
  let ?b1 = "backend env (n_calls s + 1)"
  let ?b2 = "backend env (n_calls s + 2)"
  consider (stop0) "\<not> retryable ?b0"
    | (stop1) "retryable ?b0" "\<not> retryable ?b1"
    | (stop2) "retryable ?b0" "retryable ?b1"
    by blast
  then show ?thesis
  proof cases
    case stop0
    let ?t = "bump s"
    have r: "generate_with_claude env 0 s = answer env ?b0 ?t"
      using stop0 by (simp add: gwc_unrolled Let_def)
    have k: "length (sleeps (snd (answer env ?b0 ?t))) - length (sleeps s) = 0"
      and c: "n_calls (snd (answer env ?b0 ?t)) = n_calls s + 1"
      and sl: "sleeps (snd (answer env ?b0 ?t)) = sleeps s"
      by (simp_all add: answer_frame bump_def)
    show ?thesis
      unfolding r Let_def k using stop0 c sl
      by (auto simp: answer_Raises answer_Streams [where s' = s])
  next
    case stop1
    let ?t = "bump (wait env 0 (bump s))"
    have r: "generate_with_claude env 0 s = answer env ?b1 ?t"
      using stop1 by (simp add: gwc_unrolled Let_def)
    have sl: "sleeps (snd (answer env ?b1 ?t)) = sleeps s @ [1 + jitter env (length (sleeps s))]"
      by (simp add: answer_frame bump_def wait_def)
    have k: "length (sleeps (snd (answer env ?b1 ?t))) - length (sleeps s) = 1"
      using sl by simp
    have c: "n_calls (snd (answer env ?b1 ?t)) = n_calls s + 2"
      by (simp add: answer_frame bump_def wait_def)
    show ?thesis
      unfolding r Let_def k using stop1 c sl
      by (auto simp: answer_Raises answer_Streams [where s' = s] nth_append)
  next
    case stop2
    let ?t = "bump (wait env 1 (bump (wait env 0 (bump s))))"
    have r: "generate_with_claude env 0 s = answer env ?b2 ?t"
      using stop2 by (simp add: gwc_unrolled Let_def)
    have sl: "sleeps (snd (answer env ?b2 ?t))
              = sleeps s @ [1 + jitter env (length (sleeps s)), 2 + jitter env (length (sleeps s) + 1)]"
      by (simp add: answer_frame bump_def wait_def)
    have k: "length (sleeps (snd (answer env ?b2 ?t))) - length (sleeps s) = 2"
      using sl by simp
    have c: "n_calls (snd (answer env ?b2 ?t)) = n_calls s + 3"
      by (simp add: answer_frame bump_def wait_def)
    have u: "[0..<2] = [0, Suc 0]" by (simp add: upt_rec)
    have lt2: "i < 2 \<longleftrightarrow> i = 0 \<or> i = Suc 0" for i :: nat by auto
    show ?thesis
      unfolding r Let_def k using stop2 c sl
      by (auto simp: answer_Raises answer_Streams [where s' = s] nth_append u lt2)
  qed
qed

lemma overloaded_error_msg: "is_overloaded ''overloaded_error''"
  by (simp add: is_overloaded_def lower_def lower_char_def)

lemma timeout_msg: "\<not> is_overloaded ''timeout''"
  by (simp add: is_overloaded_def lower_def lower_char_def)

lemma strip_tags_sample: "strip_tags ''<p>hello</p>'' = ''hello''"
  by simp

lemma codepoints_hello [simp]: "codepoints ''hello'' = 5"
  by (simp add: codepoints_def is_continuation_def)

text \<open>Five Japanese characters in a paragraph are fifteen bytes and count as five.\<close>

lemma content_length_counts_characters:
  "content_length
     (JObj [(''content'',
             JStr (''<p>'' @ [CHR 0xE3, CHR 0x81, CHR 0x82, CHR 0xE3, CHR 0x81, CHR 0x84,
                              CHR 0xE3, CHR 0x81, CHR 0x86, CHR 0xE3, CHR 0x81, CHR 0x88,
                              CHR 0xE3, CHR 0x81, CHR 0x8A] @ ''</p>''))]) = Inr 5"
  by (simp add: content_length_def dict_get_def codepoints_def is_continuation_def)

lemma loads_sample_text: "sample_loads sample_text = Some sample_article"
  by (simp add: sample_loads_def)

lemma loads_empty_object: "sample_loads ''{}'' = Some (JObj [])"
  by (simp add: sample_loads_def sample_text_def)

lemma loads_rejects: "sample_loads ''{}```json```'' = None" "sample_loads [] = None"
  by (simp_all add: sample_loads_def sample_text_def)

lemma fence_sample: "fence_search ''{}```json```'' = Some []"
  by (simp add: fence_search_def is_continuation_def is_space_def space_chars_def)

lemma brace_sample: "brace_search ''{}```json```'' = Some ''{}''"
  by simp

lemma start_simps: "n_calls start = 0" "sleeps start = []" "logged start = []"
  by (simp_all add: start_def)

lemma flaky_run:
  "generate_with_claude flaky_env 0 start =
     (Inl (ApiError ''timeout''), \<lparr>n_calls = 2, sleeps = [3 / 2], logged = []\<rparr>)"
  by (simp add: gwc_unrolled flaky_env_def retryable_def overloaded_error_msg timeout_msg answer_def bump_def wait_def
      start_def)

theorem retry_policy_witness:
  "retryable (backend flaky_env 0) \<and> \<not> retryable (backend flaky_env 1) \<and>
   backend flaky_env 1 = Raises ''timeout'' \<and>
   fst (generate_with_claude flaky_env 0 start) = Inl (ApiError ''timeout'') \<and>
   n_calls (snd (generate_with_claude flaky_env 0 start)) = 2 \<and>
   sleeps (snd (generate_with_claude flaky_env 0 start)) = [2 ^ 0 + 1 / 2]"
  using retry_policy [of flaky_env start] flaky_run
  by (simp add: flaky_env_def retryable_def overloaded_error_msg timeout_msg)

lemma content_length_ok:
  "map_of kvs ''content'' = Some (JStr body) \<Longrightarrow>
   content_length (JObj kvs) = Inr (int (codepoints (strip_tags body)))"
  by (simp add: content_length_def dict_get_def)

lemma article_accepted:
  assumes "map_of kvs ''title'' = Some t" and "map_of kvs ''content'' = Some (JStr body)"
    and "min_characters env \<le> int (codepoints (strip_tags body))"
    and "generate_with_claude env 0 s = (Inr (JObj kvs), s')"
  shows "generate_article env tr ep s = (Inr (JObj kvs), s')"
  using assms
  by (simp add: generate_article_def ensure_minimum_length_def content_length_ok dict_item_def)

lemma article_failed:
  "generate_with_claude env 0 s = (Inl e, s') \<Longrightarrow> generate_article env tr ep s = (Inl e, s')"
  by (simp add: generate_article_def)

text \<open>
  Claim C2, amended. For a backend that fails with an overload-indicating error on two
  consecutive invocations and then streams an article that decodes, has a title and is
  long enough, \<open>generate_article\<close> succeeds after three invocations, and its two backoff
  delays are increasing whenever the jitter lies between 0 and 1. When the third
  invocation fails as well, overloaded or not, that failure is raised and no fourth
  invocation is made. For a backend whose first failure is not overload-indicating, the
  failure is raised after one invocation and no delay.
\<close>

theorem retry_within_budget:
  "(retryable (backend env 0) \<and> retryable (backend env 1) \<and> backend env 2 = Streams c \<and>
    loads env c = Some (JObj kvs) \<and> map_of kvs ''title'' = Some t \<and>
    map_of kvs ''content'' = Some (JStr body) \<and>
    min_characters env \<le> int (codepoints (strip_tags body)) \<and>
    (\<forall>j. 0 \<le> jitter env j \<and> jitter env j \<le> 1) \<longrightarrow>
      generate_article env tr ep start =
        (Inr (JObj kvs), \<lparr>n_calls = 3, sleeps = [1 + jitter env 0, 2 + jitter env 1], logged = []\<rparr>) \<and>
      sorted (sleeps (snd (generate_article env tr ep start)))) \<and>
   (retryable (backend env' 0) \<and> retryable (backend env' 1) \<and> backend env' 2 = Raises msg \<longrightarrow>
      generate_article env' tr ep start =
        (Inl (ApiError msg), \<lparr>n_calls = 3, sleeps = [1 + jitter env' 0, 2 + jitter env' 1], logged = []\<rparr>)) \<and>
   (backend env'' 0 = Raises msg' \<and> \<not> is_overloaded msg' \<longrightarrow>
      generate_article env'' tr ep start =
        (Inl (ApiError msg'), \<lparr>n_calls = 1, sleeps = [], logged = []\<rparr>))"
proof (intro conjI impI)
  assume h: "retryable (backend env 0) \<and> retryable (backend env 1) \<and> backend env 2 = Streams c \<and>
    loads env c = Some (JObj kvs) \<and> map_of kvs ''title'' = Some t \<and>
    map_of kvs ''content'' = Some (JStr body) \<and>
    min_characters env \<le> int (codepoints (strip_tags body)) \<and>
    (\<forall>j. 0 \<le> jitter env j \<and> jitter env j \<le> 1)"
  let ?s = "\<lparr>n_calls = 3, sleeps = [1 + jitter env 0, 2 + jitter env 1], logged = []\<rparr>"
  have g: "generate_with_claude env 0 start = (Inr (JObj kvs), ?s)"
    using h by (simp add: gwc_unrolled start_def answer_def parse_response_def bump_def wait_def
        numeral_2_eq_2 numeral_3_eq_3)
  show a: "generate_article env tr ep start = (Inr (JObj kvs), ?s)"
    using h article_accepted [OF _ _ _ g] by blast
  have "jitter env 0 \<le> 1" "0 \<le> jitter env 1" using h by auto
  then show "sorted (sleeps (snd (generate_article env tr ep start)))"
    unfolding a by simp
next
  assume h: "retryable (backend env' 0) \<and> retryable (backend env' 1) \<and> backend env' 2 = Raises msg"
  then show "generate_article env' tr ep start =
        (Inl (ApiError msg), \<lparr>n_calls = 3, sleeps = [1 + jitter env' 0, 2 + jitter env' 1], logged = []\<rparr>)"
    by (intro article_failed)
       (simp add: gwc_unrolled start_def answer_def bump_def wait_def numeral_2_eq_2 numeral_3_eq_3)
next
  assume h: "backend env'' 0 = Raises msg' \<and> \<not> is_overloaded msg'"
  then show "generate_article env'' tr ep start =
        (Inl (ApiError msg'), \<lparr>n_calls = 1, sleeps = [], logged = []\<rparr>)"
    by (intro article_failed)
       (simp add: gwc_unrolled start_def answer_def bump_def retryable_def)
qed

lemma run_two_overloads:
  "generate_article (overload_env 2 5) [] [] start =
     (Inr sample_article, \<lparr>n_calls = 3, sleeps = [3 / 2, 5 / 2], logged = []\<rparr>)"
proof -
  have "generate_with_claude (overload_env 2 5) 0 start =
     (Inr (JObj [(''title'', JStr ''T''), (''content'', JStr ''<p>hello</p>'')]),
      \<lparr>n_calls = 3, sleeps = [3 / 2, 5 / 2], logged = []\<rparr>)"
    by (simp add: gwc_unrolled overload_env_def retryable_def overloaded_error_msg answer_def bump_def wait_def
        start_def parse_response_def loads_sample_text sample_article_def numeral_2_eq_2 numeral_3_eq_3)
  then show ?thesis
    unfolding sample_article_def
    by (intro article_accepted [where t = "JStr ''T''" and body = "''<p>hello</p>''"])
       (simp_all add: overload_env_def)
qed

lemma run_three_overloads:
  "generate_article (overload_env 3 5) [] [] start =
     (Inl (ApiError ''overloaded_error''), \<lparr>n_calls = 3, sleeps = [3 / 2, 5 / 2], logged = []\<rparr>)"
  by (intro article_failed)
     (simp add: gwc_unrolled overload_env_def retryable_def overloaded_error_msg answer_def bump_def wait_def
        start_def numeral_2_eq_2 numeral_3_eq_3)

lemma run_no_overload:
  "generate_article (overload_env 0 5) [] [] start =
     (Inr sample_article, \<lparr>n_calls = 1, sleeps = [], logged = []\<rparr>)"
proof -
  have "generate_with_claude (overload_env 0 5) 0 start =
     (Inr (JObj [(''title'', JStr ''T''), (''content'', JStr ''<p>hello</p>'')]),
      \<lparr>n_calls = 1, sleeps = [], logged = []\<rparr>)"
    by (simp add: gwc_unrolled overload_env_def retryable_def answer_def bump_def
        start_def parse_response_def loads_sample_text sample_article_def)
  then show ?thesis
    unfolding sample_article_def
    by (intro article_accepted [where t = "JStr ''T''" and body = "''<p>hello</p>''"])
       (simp_all add: overload_env_def)
qed

text \<open>
  Claim C2 as stated fails: after three consecutive overload failures
  \<open>generate_article\<close> raises the third, although the fourth invocation would have
  streamed an article that the same call accepts when it comes first.
\<close>

theorem three_overloads_fail:
  "retryable (backend (overload_env 3 5) 0) \<and> retryable (backend (overload_env 3 5) 1) \<and>
   retryable (backend (overload_env 3 5) 2) \<and>
   backend (overload_env 3 5) 3 = Streams sample_text \<and>
   fst (generate_article (overload_env 0 5) [] [] start) = Inr sample_article \<and>
   fst (generate_article (overload_env 3 5) [] [] start) = Inl (ApiError ''overloaded_error'') \<and>
   n_calls (snd (generate_article (overload_env 3 5) [] [] start)) = 3"
  by (simp add: run_three_overloads run_no_overload)
     (simp add: overload_env_def retryable_def overloaded_error_msg)

theorem retry_within_budget_witness:
  "retryable (backend (overload_env 2 5) 0) \<and> retryable (backend (overload_env 2 5) 1) \<and>
   backend (overload_env 2 5) 2 = Streams sample_text \<and>
   loads (overload_env 2 5) sample_text
     = Some (JObj [(''title'', JStr ''T''), (''content'', JStr ''<p>hello</p>'')]) \<and>
   min_characters (overload_env 2 5) \<le> int (codepoints (strip_tags ''<p>hello</p>'')) \<and>
   generate_article (overload_env 2 5) [] [] start =
     (Inr (JObj [(''title'', JStr ''T''), (''content'', JStr ''<p>hello</p>'')]),
      \<lparr>n_calls = 3, sleeps = [1 + 1 / 2, 2 + 1 / 2], logged = []\<rparr>) \<and>
   sorted (sleeps (snd (generate_article (overload_env 2 5) [] [] start))) \<and>
   backend (overload_env 3 5) 2 = Raises ''overloaded_error'' \<and>
   generate_article (overload_env 3 5) [] [] start =
     (Inl (ApiError ''overloaded_error''),
      \<lparr>n_calls = 3, sleeps = [1 + 1 / 2, 2 + 1 / 2], logged = []\<rparr>) \<and>
   backend broken_env 0 = Raises ''timeout'' \<and> \<not> is_overloaded ''timeout'' \<and>
   generate_article broken_env [] [] start =
     (Inl (ApiError ''timeout''), \<lparr>n_calls = 1, sleeps = [], logged = []\<rparr>)"
proof -
  have h1: "retryable (backend (overload_env 2 5) 0)" "retryable (backend (overload_env 2 5) 1)"
    "backend (overload_env 2 5) 2 = Streams sample_text"
    "loads (overload_env 2 5) sample_text
       = Some (JObj [(''title'', JStr ''T''), (''content'', JStr ''<p>hello</p>'')])"
    "map_of [(''title'', JStr ''T''), (''content'', JStr ''<p>hello</p>'')] ''title'' = Some (JStr ''T'')"
    "map_of [(''title'', JStr ''T''), (''content'', JStr ''<p>hello</p>'')] ''content''
       = Some (JStr ''<p>hello</p>'')"
    "min_characters (overload_env 2 5) \<le> int (codepoints (strip_tags ''<p>hello</p>''))"
    "\<forall>j. 0 \<le> jitter (overload_env 2 5) j \<and> jitter (overload_env 2 5) j \<le> 1"
    by (simp_all add: overload_env_def retryable_def overloaded_error_msg loads_sample_text [unfolded sample_article_def])
  have h2: "retryable (backend (overload_env 3 5) 0)" "retryable (backend (overload_env 3 5) 1)"
    "backend (overload_env 3 5) 2 = Raises ''overloaded_error''"
    by (simp_all add: overload_env_def retryable_def overloaded_error_msg)
  have h3: "backend broken_env 0 = Raises ''timeout''" "\<not> is_overloaded ''timeout''"
    by (simp_all add: broken_env_def timeout_msg)
  note t = retry_within_budget [of "overload_env 2 5" sample_text
      "[(''title'', JStr ''T''), (''content'', JStr ''<p>hello</p>'')]" "JStr ''T''"
      "''<p>hello</p>''" "[]" "[]" "overload_env 3 5" "''overloaded_error''"
      broken_env "''timeout''"]
  have c1: "generate_article (overload_env 2 5) [] [] start =
     (Inr (JObj [(''title'', JStr ''T''), (''content'', JStr ''<p>hello</p>'')]),
      \<lparr>n_calls = 3, sleeps = [1 + jitter (overload_env 2 5) 0, 2 + jitter (overload_env 2 5) 1],
         logged = []\<rparr>) \<and>
     sorted (sleeps (snd (generate_article (overload_env 2 5) [] [] start)))"
    by (rule mp [OF conjunct1 [OF t]]) (intro conjI h1)
  have c2: "generate_article (overload_env 3 5) [] [] start =
     (Inl (ApiError ''overloaded_error''),
      \<lparr>n_calls = 3, sleeps = [1 + jitter (overload_env 3 5) 0, 2 + jitter (overload_env 3 5) 1],
         logged = []\<rparr>)"
    by (rule mp [OF conjunct1 [OF conjunct2 [OF t]]]) (intro conjI h2)
  have c3: "generate_article broken_env [] [] start =
     (Inl (ApiError ''timeout''), \<lparr>n_calls = 1, sleeps = [], logged = []\<rparr>)"
    by (rule mp [OF conjunct2 [OF conjunct2 [OF t]]]) (intro conjI h3)
  have j: "jitter (overload_env 2 5) = (\<lambda>n. 1 / 2)" "jitter (overload_env 3 5) = (\<lambda>n. 1 / 2)"
    by (simp_all add: overload_env_def)
  show ?thesis
    using c1 c2 c3 h1(1-4,7) h2(3) h3 unfolding j by (intro conjI) simp_all
qed

text \<open>
  Claim C1, at an under-length article (5 characters of text, minimum 4000):
  \<open>generate_article\<close> raises \<open>NameError\<close> after the single invocation of the first pass,
  so no expansion pass is issued and the article is not returned. \<open>_expand_article\<close>
  itself, had it been entered and its call failed, returns the original article.
\<close>

theorem under_length_raises:
  "content_length sample_article = Inr 5 \<and>
   generate_article (overload_env 0 4000) [] [] start =
     (Inl (NameError ''episode_url''), \<lparr>n_calls = 1, sleeps = [], logged = []\<rparr>) \<and>
   expand_article broken_env sample_article 4000 [] \<lparr>n_calls = 1, sleeps = [], logged = []\<rparr> =
     (Inr sample_article,
      \<lparr>n_calls = 2, sleeps = [], logged = [ExpandFailed (ApiError ''timeout'')]\<rparr>)"
proof -
  have a: "content_length sample_article = Inr 5"
    by (simp add: content_length_def dict_get_def sample_article_def)
  have g: "generate_with_claude (overload_env 0 4000) 0 start =
     (Inr sample_article, \<lparr>n_calls = 1, sleeps = [], logged = []\<rparr>)"
    by (simp add: gwc_unrolled overload_env_def retryable_def answer_def bump_def
        start_def parse_response_def loads_sample_text)
  have b: "generate_article (overload_env 0 4000) [] [] start =
     (Inl (NameError ''episode_url''), \<lparr>n_calls = 1, sleeps = [], logged = []\<rparr>)"
    by (simp add: generate_article_def g ensure_minimum_length_def a)
       (simp add: overload_env_def)
  have e: "generate_with_claude broken_env 0 \<lparr>n_calls = 1, sleeps = [], logged = []\<rparr> =
     (Inl (ApiError ''timeout''), \<lparr>n_calls = 2, sleeps = [], logged = []\<rparr>)"
    by (simp add: gwc_unrolled broken_env_def retryable_def timeout_msg answer_def bump_def)
  have c: "expand_article broken_env sample_article 4000 [] \<lparr>n_calls = 1, sleeps = [], logged = []\<rparr> =
     (Inr sample_article,
      \<lparr>n_calls = 2, sleeps = [], logged = [ExpandFailed (ApiError ''timeout'')]\<rparr>)"
    using e by (simp add: expand_article_def)
  show ?thesis by (intro conjI a b c)
qed

subsection \<open>Extraction of the structured record\<close>

lemma brace_scan_sound:
  "brace_scan inner cs = Some m \<Longrightarrow> prefix m cs \<and> depth_ok (if inner then 2 else 1) m"
proof (induction inner cs arbitrary: m rule: brace_scan.induct)
  case (1 inner)
  then show ?case by simp
next
  case (2 c cs)
  then show ?case by (auto split: if_splits)
next
  case (3 c cs)
  then show ?case by (auto split: if_splits)
qed

lemma brace_scan_complete:
  "prefix m cs \<Longrightarrow> depth_ok (if inner then 2 else 1) m \<Longrightarrow> brace_scan inner cs = Some m"
proof (induction inner cs arbitrary: m rule: brace_scan.induct)
  case (1 inner)
  then show ?case by simp
next
  case (2 c cs)
  then show ?case by (cases m) (auto split: if_splits)
next
  case (3 c cs)
  then show ?case by (cases m) (auto split: if_splits)
qed

lemma brace_span_scan:
  "brace_span q \<Longrightarrow> prefix q (c # cs) \<Longrightarrow> c = CHR ''{'' \<and> brace_scan False cs = Some (tl q)"
  by (cases q) (auto simp: brace_span_def intro: brace_scan_complete [where inner = False, simplified])

lemma brace_search_first:
  "brace_search content = Some b \<Longrightarrow>
   \<exists>pre post. content = pre @ b @ post \<and> brace_span b \<and>
     (\<forall>p q r. content = p @ q @ r \<and> length p < length pre \<longrightarrow> \<not> brace_span q)"
proof (induction content)
  case Nil
  then show ?case by simp
next
  case (Cons c cs)
  show ?case
  proof (cases "c = CHR ''{'' \<and> brace_scan False cs \<noteq> None")
    case True
    then obtain m where m: "brace_scan False cs = Some m" by auto
    with True Cons.prems have b: "b = c # m" by simp
    from brace_scan_sound [OF m] obtain post where "cs = m @ post" and "depth_ok 1 m"
      by (auto simp: prefix_def)
    then have "c # cs = [] @ b @ post \<and> brace_span b" using b True by (simp add: brace_span_def)
    then show ?thesis by (intro exI [of _ "[]"] exI [of _ post]) simp
  next
    case False
    then have s: "brace_search cs = Some b" using Cons.prems by (auto split: option.splits if_splits)
    from Cons.IH [OF s] obtain pre post where d: "cs = pre @ b @ post" and sp: "brace_span b"
      and fst: "\<forall>p q r. cs = p @ q @ r \<and> length p < length pre \<longrightarrow> \<not> brace_span q"
      by blast
    have "\<not> brace_span q" if e: "c # cs = p @ q @ r" and l: "length p < length (c # pre)" for p q r
    proof (cases p)
      case Nil
      show ?thesis
      proof
        assume q: "brace_span q"
        have "prefix q (c # cs)" using e Nil by (simp add: prefix_def)
        from brace_span_scan [OF q this] False show False by simp
      qed
    next
      case (Cons x p')
      then have "cs = p' @ q @ r" "length p' < length pre" using e l by auto
      then show ?thesis using fst by blast
    qed
    then show ?thesis using d sp
      by (intro exI [of _ "c # pre"] exI [of _ post]) auto
  qed
qed

lemma brace_search_none:
  "brace_search content = None \<Longrightarrow> content = p @ q @ r \<Longrightarrow> \<not> brace_span q"
proof (induction content arbitrary: p)
  case Nil
  then show ?case by (simp add: brace_span_def)
next
  case (Cons c cs)
  show ?case
  proof (cases p)
    case Nil
    show ?thesis
    proof
      assume q: "brace_span q"
      have "prefix q (c # cs)" using Cons.prems(2) Nil by (simp add: prefix_def)
      from brace_span_scan [OF q this] Cons.prems(1) show False by simp
    qed
  next
    case (Cons x p')
    then have "cs = p' @ q @ r" using Cons.prems(2) by simp
    moreover have "brace_search cs = None"
      using Cons.prems(1) by (auto split: if_splits option.splits)
    ultimately show ?thesis using Cons.IH by blast
  qed
qed


lemma concat_chars: "concat (chars s) = s"
  by (induction s rule: chars.induct) simp_all

lemma chars_append:
  "b = [] \<or> \<not> is_continuation (hd b) \<Longrightarrow> chars (a @ b) = chars a @ chars b"
proof (induction a rule: chars.induct)
  case 1
  then show ?case by simp
next
  case (2 c cs)
  show ?case
  proof (cases "\<forall>x \<in> set cs. is_continuation x")
    case True
    have a: "takeWhile is_continuation cs = cs" and d: "dropWhile is_continuation cs = []"
      using True by simp_all
    have e: "takeWhile is_continuation (cs @ b) = cs"
      and f: "dropWhile is_continuation (cs @ b) = b"
      using True 2(2) by (cases b; simp add: takeWhile_append dropWhile_append)+
    show ?thesis
      by (simp only: append_Cons chars.simps a d e f append_Nil)
  next
    case False
    then have "takeWhile is_continuation (cs @ b) = takeWhile is_continuation cs"
      "dropWhile is_continuation (cs @ b) = dropWhile is_continuation cs @ b"
      by (auto simp: takeWhile_append dropWhile_append)
    then show ?thesis using 2 by simp
  qed
qed

lemma take_chars_all: "codepoints s \<le> n \<Longrightarrow> take_chars n s = s"
  by (simp add: take_chars_def codepoints_def concat_chars)

lemma tag_chars: "chars ''```json'' = [''`'', ''`'', ''`'', ''j'', ''s'', ''o'', ''n'']"
  and fence_chars_lit: "chars ''```'' = [''`'', ''`'', ''`'']"
  by (simp_all add: is_continuation_def)

lemma space_char_shape:
  "is_space w \<Longrightarrow> chars w = [w] \<and> w \<noteq> [] \<and> \<not> is_continuation (hd w)"
  by (auto simp: is_space_def space_chars_def is_continuation_def)

declare chars.simps [simp del]

lemma chars_of_spaces: "list_all is_space ws \<Longrightarrow> chars (concat ws) = ws"
proof (induction ws)
  case Nil
  then show ?case by (simp add: chars.simps)
next
  case (Cons w ws)
  then have w: "is_space w" and r: "list_all is_space ws" by simp_all
  have "concat ws = [] \<or> \<not> is_continuation (hd (concat ws))"
  proof (cases ws)
    case Nil
    then show ?thesis by simp
  next
    case (Cons v vs)
    then have "is_space v" using r by simp
    then have "v \<noteq> []" "\<not> is_continuation (hd v)" using space_char_shape by blast+
    then show ?thesis using Cons by simp
  qed
  then have "chars (w @ concat ws) = chars w @ chars (concat ws)" by (rule chars_append)
  then show ?case using space_char_shape [OF w] Cons.IH [OF r] by simp
qed

lemma spaces_concat: "list_all is_space ws \<Longrightarrow> spaces (concat ws)"
  by (simp add: spaces_def chars_of_spaces)

lemma fence_not_space: "\<not> is_space ''`''"
  by (simp add: is_space_def space_chars_def)

lemma takeWhile_spaces: "list_all is_space (takeWhile is_space xs)"
  unfolding list_all_iff by (metis set_takeWhileD)

lemma fence_body_shape:
  "fence_body s = Some g \<Longrightarrow>
   \<exists>ws post. s = g @ ws @ chars ''```'' @ post \<and> list_all is_space ws"
proof (induction s arbitrary: g)
  case Nil
  then show ?case by simp
next
  case (Cons c cs)
  show ?case
  proof (cases "prefix (chars ''```'') (dropWhile is_space (c # cs))")
    case True
    then obtain post where p: "dropWhile is_space (c # cs) = chars ''```'' @ post"
      by (auto simp: prefix_def)
    have "c # cs = takeWhile is_space (c # cs) @ dropWhile is_space (c # cs)" by simp
    then have "c # cs = [] @ takeWhile is_space (c # cs) @ chars ''```'' @ post"
      by (simp only: p append_Nil)
    moreover have "g = []" using True Cons.prems by simp
    ultimately show ?thesis using takeWhile_spaces by blast
  next
    case False
    then obtain g' where g: "g = c # g'" and b: "fence_body cs = Some g'"
      using Cons.prems by auto
    from Cons.IH [OF b] show ?thesis using g by auto
  qed
qed

lemma fence_chars_shape:
  "fence_chars cs = Some g \<Longrightarrow>
   \<exists>pre ws ws' post. cs = pre @ chars ''```json'' @ ws @ g @ ws' @ chars ''```'' @ post
      \<and> list_all is_space ws \<and> list_all is_space ws'"
proof (induction cs)
  case Nil
  then show ?case by simp
next
  case (Cons c cs)
  let ?rest = "drop 7 (c # cs)"
  show ?case
  proof (cases "prefix (chars ''```json'') (c # cs) \<and> fence_body (dropWhile is_space ?rest) \<noteq> None")
    case True
    then have fb: "fence_body (dropWhile is_space ?rest) = Some g"
      using Cons.prems by (auto split: option.splits)
    from True obtain zs where z: "c # cs = chars ''```json'' @ zs" by (auto simp: prefix_def)
    then have "?rest = zs" by (simp add: tag_chars)
    with z have pc: "c # cs = chars ''```json'' @ ?rest" by simp
    from fence_body_shape [OF fb] obtain ws' post where
      r: "dropWhile is_space ?rest = g @ ws' @ chars ''```'' @ post" and w: "list_all is_space ws'"
      by blast
    have "?rest = takeWhile is_space ?rest @ dropWhile is_space ?rest" by simp
    then have r2: "?rest = takeWhile is_space ?rest @ g @ ws' @ chars ''```'' @ post"
      by (simp only: r)
    have "c # cs = [] @ chars ''```json'' @ takeWhile is_space ?rest @ g @ ws' @ chars ''```'' @ post"
      using pc r2 by (simp only: append_Nil)
    then show ?thesis using w takeWhile_spaces by blast
  next
    case False
    then have "fence_chars cs = Some g" using Cons.prems by (auto split: option.splits if_splits)
    from Cons.IH [OF this] obtain pre ws ws' post where
      e: "cs = pre @ chars ''```json'' @ ws @ g @ ws' @ chars ''```'' @ post"
      and s: "list_all is_space ws" "list_all is_space ws'" by blast
    from e have "c # cs = (c # pre) @ chars ''```json'' @ ws @ g @ ws' @ chars ''```'' @ post" by simp
    then show ?thesis using s by blast
  qed
qed

lemma fence_search_shape:
  assumes "fence_search content = Some g"
  shows "\<exists>pre ws ws' post. content = pre @ ''```json'' @ ws @ g @ ws' @ ''```'' @ post
      \<and> spaces ws \<and> spaces ws'"
proof -
  from assms obtain g0 where f: "fence_chars (chars content) = Some g0" and g: "g = concat g0"
    by (auto simp: fence_search_def)
  from fence_chars_shape [OF f] obtain pre ws ws' post where
    e: "chars content = pre @ chars ''```json'' @ ws @ g0 @ ws' @ chars ''```'' @ post"
    and s: "list_all is_space ws" "list_all is_space ws'" by blast
  have "content = concat (chars content)" by (simp add: concat_chars)
  also have "\<dots> = concat pre @ ''```json'' @ concat ws @ g @ concat ws' @ ''```'' @ concat post"
    unfolding e g by (simp add: concat_chars)
  finally show ?thesis using s spaces_concat by blast
qed

lemma dropWhile_before_fence:
  "\<exists>x'. dropWhile is_space (x @ chars ''```'' @ y) = x' @ chars ''```'' @ y"
proof (cases "\<forall>c \<in> set x. is_space c")
  case True
  then have "dropWhile is_space (x @ chars ''```'' @ y) = [] @ chars ''```'' @ y"
    by (simp add: dropWhile_append fence_not_space fence_chars_lit)
  then show ?thesis by blast
next
  case False
  then have "dropWhile is_space (x @ chars ''```'' @ y) = dropWhile is_space x @ chars ''```'' @ y"
    by (auto simp: dropWhile_append)
  then show ?thesis by blast
qed

lemma fence_body_complete: "fence_body (x @ chars ''```'' @ y) \<noteq> None"
proof (induction x)
  case Nil
  then show ?case by (simp add: fence_not_space fence_chars_lit)
next
  case (Cons c x)
  then show ?case by auto
qed

lemma fence_chars_complete:
  "fence_chars (pre @ chars ''```json'' @ mid @ chars ''```'' @ post) \<noteq> None"
proof (induction pre)
  case Nil
  obtain x' where "dropWhile is_space (mid @ chars ''```'' @ post) = x' @ chars ''```'' @ post"
    using dropWhile_before_fence by blast
  then have "fence_body (dropWhile is_space (mid @ chars ''```'' @ post)) \<noteq> None"
    using fence_body_complete by simp
  then show ?case by (auto simp: tag_chars split: option.splits)
next
  case (Cons c pre)
  then show ?case by (auto split: option.splits)
qed

lemma fence_search_none:
  "fence_search content = None \<Longrightarrow>
   chars content \<noteq> pre @ chars ''```json'' @ mid @ chars ''```'' @ post"
  using fence_chars_complete [of pre mid post] by (auto simp: fence_search_def)

text \<open>
  Claim C6, amended. When decoding the whole buffer fails, \<open>_generate_with_claude\<close>
  looks for a fenced block tagged \<open>json\<close>. If there is one, the stripped text between
  the tag and the closing fence is decoded and decides the result alone. Only when the
  characters of the buffer hold no tag with a fence after it is the first balanced
  brace-delimited span nested at most one level deep decoded: no such span starts before
  it. When the chosen text does not decode, or there is neither, the failure raised has
  a fixed message; the first 500 characters of the raw response go to the error log and
  nothing else changes. On success nothing is logged.
\<close>

theorem response_extraction:
  assumes "loads env content = None"
  shows
    "(case fence_search content of
        Some g \<Rightarrow>
          (\<exists>pre ws ws' post. content = pre @ ''```json'' @ ws @ g @ ws' @ ''```'' @ post
              \<and> spaces ws \<and> spaces ws') \<and>
          fst (parse_response env content s)
            = (case loads env (strip g) of Some a \<Rightarrow> Inr a | None \<Rightarrow> Inl NoJsonResponse)
      | None \<Rightarrow>
          (\<forall>pre mid post. chars content \<noteq> pre @ chars ''```json'' @ mid @ chars ''```'' @ post) \<and>
          (case brace_search content of
             Some b \<Rightarrow>
               (\<exists>pre post. content = pre @ b @ post \<and> brace_span b \<and>
                  (\<forall>p q r. content = p @ q @ r \<and> length p < length pre \<longrightarrow> \<not> brace_span q)) \<and>
               fst (parse_response env content s)
                 = (case loads env b of Some a \<Rightarrow> Inr a | None \<Rightarrow> Inl NoJsonResponse)
           | None \<Rightarrow>
               (\<forall>p q r. content = p @ q @ r \<longrightarrow> \<not> brace_span q) \<and>
               fst (parse_response env content s) = Inl NoJsonResponse)) \<and>
     snd (parse_response env content s)
       = (case fst (parse_response env content s) of
            Inr a \<Rightarrow> s
          | Inl e \<Rightarrow> s\<lparr>logged := logged s @ [Received (take_chars 500 content)]\<rparr>) \<and>
     (\<forall>e. fst (parse_response env content s) = Inl e \<longrightarrow> e = NoJsonResponse)"
proof (intro conjI)
  show "case fence_search content of
        Some g \<Rightarrow>
          (\<exists>pre ws ws' post. content = pre @ ''```json'' @ ws @ g @ ws' @ ''```'' @ post
              \<and> spaces ws \<and> spaces ws') \<and>
          fst (parse_response env content s)
            = (case loads env (strip g) of Some a \<Rightarrow> Inr a | None \<Rightarrow> Inl NoJsonResponse)
      | None \<Rightarrow>
          (\<forall>pre mid post. chars content \<noteq> pre @ chars ''```json'' @ mid @ chars ''```'' @ post) \<and>
          (case brace_search content of
             Some b \<Rightarrow>
               (\<exists>pre post. content = pre @ b @ post \<and> brace_span b \<and>
                  (\<forall>p q r. content = p @ q @ r \<and> length p < length pre \<longrightarrow> \<not> brace_span q)) \<and>
               fst (parse_response env content s)
                 = (case loads env b of Some a \<Rightarrow> Inr a | None \<Rightarrow> Inl NoJsonResponse)
           | None \<Rightarrow>
               (\<forall>p q r. content = p @ q @ r \<longrightarrow> \<not> brace_span q) \<and>
               fst (parse_response env content s) = Inl NoJsonResponse)"
  proof (cases "fence_search content")
    case (Some g)
    have "fst (parse_response env content s)
            = (case loads env (strip g) of Some a \<Rightarrow> Inr a | None \<Rightarrow> Inl NoJsonResponse)"
      using assms Some by (simp add: parse_response_def extract_json_def split: option.splits)
    then show ?thesis using Some fence_search_shape [OF Some] by simp
  next
    case nf: None
    have no: "\<forall>pre mid post. chars content \<noteq> pre @ chars ''```json'' @ mid @ chars ''```'' @ post"
      using fence_search_none [OF nf] by blast
    show ?thesis
    proof (cases "brace_search content")
      case None
      have "fst (parse_response env content s) = Inl NoJsonResponse"
        using assms nf None by (simp add: parse_response_def extract_json_def)
      moreover have "\<forall>p q r. content = p @ q @ r \<longrightarrow> \<not> brace_span q"
        using brace_search_none [OF None] by blast
      ultimately show ?thesis using nf None no by simp
    next
      case (Some b)
      have "fst (parse_response env content s)
                 = (case loads env b of Some a \<Rightarrow> Inr a | None \<Rightarrow> Inl NoJsonResponse)"
        using assms nf Some by (simp add: parse_response_def extract_json_def split: option.splits)
      then show ?thesis using nf Some no brace_search_first [OF Some] by simp
    qed
  qed
  show "snd (parse_response env content s)
       = (case fst (parse_response env content s) of
            Inr a \<Rightarrow> s
          | Inl e \<Rightarrow> s\<lparr>logged := logged s @ [Received (take_chars 500 content)]\<rparr>)"
    by (simp add: parse_response_def split: option.splits)
  show "\<forall>e. fst (parse_response env content s) = Inl e \<longrightarrow> e = NoJsonResponse"
    by (simp add: parse_response_def split: option.splits)
qed

lemmas text_eval = fence_search_def chars.simps is_continuation_def is_space_def space_chars_def
  strip_def

lemma fence_none_sample: "fence_search ''Here: {} done'' = None"
  by (simp add: text_eval)

lemma brace_found_sample: "brace_search ''Here: {} done'' = Some ''{}''"
  by simp

text \<open>A fenced block whose body is set off by no-break spaces (U+00A0).\<close>

lemma fence_nbsp_sample:
  "fence_search (''```json'' @ [CHR 0xC2, CHR 0xA0] @ ''{}'' @ [CHR 0xC2, CHR 0xA0] @ ''```'')
     = Some ''{}''"
  by (simp add: text_eval)

lemma strip_nbsp_sample:
  "strip ([CHR 0xC2, CHR 0xA0] @ ''{}'' @ [CHR 0xE3, CHR 0x80, CHR 0x80, CHR 0x0A]) = ''{}''"
  by (simp add: text_eval)

theorem response_extraction_witness:
  "loads fence_env ''Here: {} done'' = None \<and>
   fence_search ''Here: {} done'' = None \<and> brace_search ''Here: {} done'' = Some ''{}'' \<and>
   fst (parse_response fence_env ''Here: {} done'' start) = Inr (JObj []) \<and>
   snd (parse_response fence_env ''Here: {} done'' start) = start \<and>
   loads fence_env (''```json'' @ [CHR 0xC2, CHR 0xA0] @ ''{}'' @ [CHR 0xC2, CHR 0xA0] @ ''```'')
     = None \<and>
   fst (parse_response fence_env
          (''```json'' @ [CHR 0xC2, CHR 0xA0] @ ''{}'' @ [CHR 0xC2, CHR 0xA0] @ ''```'') start)
     = Inr (JObj [])"
proof -
  let ?c = "''```json'' @ [CHR 0xC2, CHR 0xA0] @ ''{}'' @ [CHR 0xC2, CHR 0xA0] @ ''```''"
  have h: "loads fence_env ''Here: {} done'' = None"
    by (simp add: fence_env_def sample_loads_def sample_text_def)
  have h2: "loads fence_env ?c = None"
    by (simp add: fence_env_def sample_loads_def sample_text_def)
  have d: "loads fence_env ''{}'' = Some (JObj [])"
    by (simp add: fence_env_def loads_empty_object)
  have st: "strip ''{}'' = ''{}''" by (simp add: text_eval)
  note t = response_extraction [OF h, of start]
  have a: "fst (parse_response fence_env ''Here: {} done'' start) = Inr (JObj [])"
    using conjunct1 [OF t] by (simp add: fence_none_sample brace_found_sample d)
  have b: "snd (parse_response fence_env ''Here: {} done'' start) = start"
    using conjunct1 [OF conjunct2 [OF t]] by (simp add: a)
  have c: "fst (parse_response fence_env ?c start) = Inr (JObj [])"
    using conjunct1 [OF response_extraction [OF h2, of start]]
    by (simp only: fence_nbsp_sample option.case st d)
  show ?thesis by (intro conjI h fence_none_sample brace_found_sample a b h2 c)
qed

text \<open>
  Claim C6 as stated fails at the buffer \<open>{}```json```\<close>: the fenced block is empty and
  does not decode, the brace span \<open>{}\<close> before it would, and trying the strategies in
  order would return it; the code raises instead, and the failure carries no part of
  the response (the snippet is only logged).
\<close>

theorem failed_fence_skips_brace_span:
  "loads fence_env ''{}```json```'' = None \<and>
   fence_search ''{}```json```'' = Some [] \<and> loads fence_env (strip []) = None \<and>
   brace_search ''{}```json```'' = Some ''{}'' \<and> loads fence_env ''{}'' = Some (JObj []) \<and>
   extract_in_order (loads fence_env) ''{}```json```'' = Some (JObj []) \<and>
   extract_json (loads fence_env) ''{}```json```'' = None \<and>
   generate_with_claude fence_env 0 start =
     (Inl NoJsonResponse,
      \<lparr>n_calls = 1, sleeps = [], logged = [Received ''{}```json```'']\<rparr>)"
proof -
  have l: "loads fence_env = sample_loads" by (simp add: fence_env_def)
  have se: "strip [] = []" by (simp add: text_eval)
  have e: "extract_json sample_loads ''{}```json```'' = None"
    by (simp add: extract_json_def fence_sample se loads_rejects)
  have o: "extract_in_order sample_loads ''{}```json```'' = Some (JObj [])"
    by (simp add: extract_in_order_def fence_sample se brace_sample loads_rejects
        loads_empty_object)
  have tk: "take_chars 500 ''{}```json```'' = ''{}```json```''"
    by (rule take_chars_all) (simp add: codepoints_def text_eval)
  have g: "generate_with_claude fence_env 0 start =
     (Inl NoJsonResponse,
      \<lparr>n_calls = 1, sleeps = [], logged = [Received ''{}```json```'']\<rparr>)"
    using e tk
    by (simp add: gwc_unrolled fence_env_def retryable_def answer_def bump_def start_def
        parse_response_def loads_rejects)
  show ?thesis
    unfolding l
    by (intro conjI loads_rejects(1) fence_sample brace_sample loads_empty_object e o
        g [unfolded l]) (simp add: se loads_rejects)
qed

subsection \<open>Publishing client\<close>

lemma contains_prefix: "prefix p s \<Longrightarrow> contains p s"
  by (cases s) auto

lemma contains_append: "contains p (a @ p @ b)"
  by (induction a) (auto simp: contains_prefix)

lemma login_url_has_login: "contains ''login'' (login_url p @ q)"
proof -
  have "login_url p @ q = (wp_site_url p @ ''/wp-'') @ ''login'' @ (''.php'' @ q)"
    by (simp add: login_url_def)
  then show ?thesis by (simp only: contains_append)
qed

lemma login_events:
  "snd (login st p tr) = tr @ [Get (login_url p)] \<or>
   (\<exists>d. snd (login st p tr) = tr @ [Get (login_url p), Post (login_url p) d])"
  by (auto simp: login_def login_body_def Let_def split: sum.splits option.splits prod.splits)

lemma login_ok_events:
  "fst (login st p tr) \<Longrightarrow>
   \<exists>d code url pg. snd (login st p tr) = tr @ [Get (login_url p), Post (login_url p) d] \<and>
      post_login st d = Response code url pg \<and> \<not> (400 \<le> code \<and> code < 600) \<and>
      contains ''wp-admin'' url \<and> \<not> contains ''login'' url"
  by (auto simp: login_def login_body_def Let_def raise_for_status_def
      split: sum.splits option.splits prod.splits http.splits if_splits)

lemma login_page_fails:
  assumes "\<forall>d. \<exists>code q pg. post_login st d = Response code (login_url p @ q) pg"
  shows "\<not> fst (login st p tr)"
proof
  assume "fst (login st p tr)"
  from login_ok_events [OF this] obtain d code url pg where
    r: "post_login st d = Response code url pg" and n: "\<not> contains ''login'' url" by blast
  from assms obtain code' q pg' where "post_login st d = Response code' (login_url p @ q) pg'"
    by blast
  with r have "url = login_url p @ q" by simp
  with n login_url_has_login show False by simp
qed

lemma post_inner_ok:
  "fst (post_article_inner st p a tr) \<Longrightarrow>
   \<exists>d code url pg. snd (post_article_inner st p a tr) = tr @ [Get (new_post_url p), Post (submit_url p) d] \<and>
      post_entry st d = Response code url pg \<and> \<not> (400 \<le> code \<and> code < 600) \<and> published url"
  by (auto simp: post_article_inner_def post_body_def Let_def raise_for_status_def
      split: sum.splits option.splits prod.splits http.splits if_splits)

lemma urls_differ:
  "login_url p \<noteq> submit_url p" "login_url p \<noteq> new_post_url p"
  by (simp_all add: login_url_def submit_url_def new_post_url_def)

lemma harvest_keys_gen:
  "fst ` set (fold harvest_step inputs d)
   = fst ` set d \<union> {n. n \<noteq> [] \<and> (\<exists>v. v \<noteq> [] \<and> (Some n, Some v) \<in> set inputs)}"
proof (induction inputs arbitrary: d)
  case Nil
  then show ?case by simp
next
  case (Cons i inputs)
  obtain name val where i: "i = (name, val)" by (cases i)
  show ?case
    unfolding fold_simps Cons.IH i
    by (cases name; cases val) (auto simp: harvest_step_def dom_update)
qed

lemma harvest_lacks:
  "map_of (harvest inputs) field = None \<longleftrightarrow>
   \<not> (field \<noteq> [] \<and> (\<exists>v. v \<noteq> [] \<and> (Some field, Some v) \<in> set inputs))"
proof -
  have "harvest inputs = fold harvest_step inputs []"
    by (simp add: harvest_def)
  then have "fst ` set (harvest inputs)
     = {n. n \<noteq> [] \<and> (\<exists>v. v \<noteq> [] \<and> (Some n, Some v) \<in> set inputs)}"
    using harvest_keys_gen [of inputs "[]"] by simp
  then show ?thesis by (simp add: map_of_eq_None_iff)
qed

text \<open>
  Claim C7. For every article and settings \<open>post_article\<close> returns a boolean and raises
  nothing. With an empty site address, username or password it returns False and issues
  no request (an empty configured address stays empty after normalisation). When the
  login fails or the submission fails it returns False: it returns True only if the
  login's POST was answered without an error status at an administrative URL that is
  not a login URL, and the submission's POST was answered without an error status at a
  URL classified as published.
\<close>

theorem publish_returns_bool:
  "(\<exists>b. fst (post_article st p a) = Inr b) \<and>
   (wp_site_url p = [] \<or> wp_username p = [] \<or> wp_password p = [] \<longrightarrow>
      post_article st p a = (Inr False, [])) \<and>
   wp_site_url (new_poster [] u pw st_name) = [] \<and>
   (\<not> fst (login st p []) \<longrightarrow> fst (post_article st p a) = Inr False) \<and>
   (\<not> fst (post_article_inner st p a (snd (login st p []) @ [Sleep 1])) \<longrightarrow>
      fst (post_article st p a) = Inr False) \<and>
   (fst (post_article st p a) = Inr True \<longrightarrow>
      (\<exists>d code url pg. post_login st d = Response code url pg \<and>
         \<not> (400 \<le> code \<and> code < 600) \<and> contains ''wp-admin'' url \<and> \<not> contains ''login'' url) \<and>
      (\<exists>d code url pg. post_entry st d = Response code url pg \<and>
         \<not> (400 \<le> code \<and> code < 600) \<and> published url))"
proof (intro conjI impI)
  show "\<exists>b. fst (post_article st p a) = Inr b"
    by (auto simp: post_article_def post_via_browser_automation_def split: prod.splits bool.splits)
  show "post_article st p a = (Inr False, [])"
    if "wp_site_url p = [] \<or> wp_username p = [] \<or> wp_password p = []"
    using that by (auto simp: post_article_def validate_settings_def)
  show "wp_site_url (new_poster [] u pw st_name) = []"
    by (simp add: new_poster_def rstrip_slash_def)
  show "fst (post_article st p a) = Inr False" if "\<not> fst (login st p [])"
    using that
    by (auto simp: post_article_def post_via_browser_automation_def split: prod.splits bool.splits)
  show "fst (post_article st p a) = Inr False"
    if "\<not> fst (post_article_inner st p a (snd (login st p []) @ [Sleep 1]))"
    using that
    by (auto simp: post_article_def post_via_browser_automation_def split: prod.splits bool.splits)
  assume t: "fst (post_article st p a) = Inr True"
  then have l: "fst (login st p [])"
    and i: "fst (post_article_inner st p a (snd (login st p []) @ [Sleep 1]))"
    by (auto simp: post_article_def post_via_browser_automation_def
        split: prod.splits bool.splits if_splits)
  from login_ok_events [OF l]
  show "\<exists>d code url pg. post_login st d = Response code url pg \<and>
         \<not> (400 \<le> code \<and> code < 600) \<and> contains ''wp-admin'' url \<and> \<not> contains ''login'' url"
    by blast
  from post_inner_ok [OF i]
  show "\<exists>d code url pg. post_entry st d = Response code url pg \<and>
         \<not> (400 \<le> code \<and> code < 600) \<and> published url"
    by blast
qed

lemma blog_poster:
  "blog = \<lparr>wp_site_url = ''http://blog'', wp_username = ''admin'', wp_password = ''secret'',
           wp_status = ''draft''\<rparr>"
  by (simp add: blog_def new_poster_def rstrip_slash_def Let_def suffix_to_prefix)


text \<open>
  Claim C8. If the site answers the login's POST at the login page (the login URL,
  possibly followed by a query), \<open>post_article\<close> returns False, and neither the editor
  page is fetched nor a submission posted. If the settings are valid, the login
  succeeds and the editor page is served, but its first form has no hidden input with
  a non-empty value for one of the required names (or the page has no form),
  \<open>post_article\<close> returns False after fetching the editor page once: the requests are
  exactly the login's GET and POST and one GET of the editor page, with no submission.
\<close>

theorem publish_stops:
  "((\<forall>d. \<exists>code q pg. post_login st d = Response code (login_url p @ q) pg) \<longrightarrow>
      fst (post_article st p a) = Inr False \<and>
      (\<forall>d. Post (submit_url p) d \<notin> set (snd (post_article st p a))) \<and>
      Get (new_post_url p) \<notin> set (snd (post_article st p a))) \<and>
   (validate_settings p' \<and> fst (login st' p' []) \<and>
    get_editor st' = Response code url pg \<and> \<not> (400 \<le> code \<and> code < 600) \<and>
    field \<in> set required_fields \<and>
    (\<forall>f others v. forms pg = f # others \<and> (Some field, Some v) \<in> set f \<longrightarrow> v = []) \<longrightarrow>
      (\<exists>d. post_article st' p' a'
            = (Inr False, [Get (login_url p'), Post (login_url p') d, Sleep 1,
                           Get (new_post_url p')])) \<and>
      (\<forall>d. Post (submit_url p') d \<notin> set (snd (post_article st' p' a'))))"
proof (intro conjI impI)
  assume h: "\<forall>d. \<exists>code q pg. post_login st d = Response code (login_url p @ q) pg"
  have nl: "\<not> fst (login st p [])" by (rule login_page_fails [OF h])
  have r: "post_article st p a = (Inr False, []) \<or> post_article st p a = (Inr False, snd (login st p []))"
    using nl
    by (auto simp: post_article_def post_via_browser_automation_def split: prod.splits bool.splits)
  then show "fst (post_article st p a) = Inr False" by auto
  from r login_events [of st p "[]"]
  have ev: "set (snd (post_article st p a)) \<subseteq> {Get (login_url p)} \<union> range (Post (login_url p))"
    by auto
  show "\<forall>d. Post (submit_url p) d \<notin> set (snd (post_article st p a))"
    using ev urls_differ(1) [of p] by auto
  show "Get (new_post_url p) \<notin> set (snd (post_article st p a))"
    using ev urls_differ(2) [of p] by auto
next
  assume h: "validate_settings p' \<and> fst (login st' p' []) \<and>
    get_editor st' = Response code url pg \<and> \<not> (400 \<le> code \<and> code < 600) \<and>
    field \<in> set required_fields \<and>
    (\<forall>f others v. forms pg = f # others \<and> (Some field, Some v) \<in> set f \<longrightarrow> v = [])"
  let ?hf = "case forms pg of [] \<Rightarrow> [] | main_form # others \<Rightarrow> harvest main_form"
  have lack: "map_of ?hf field = None"
  proof (cases "forms pg")
    case Nil
    then show ?thesis by simp
  next
    case (Cons f others)
    then have "\<forall>v. (Some field, Some v) \<in> set f \<longrightarrow> v = []" using h by blast
    then have "map_of (harvest f) field = None" by (auto simp: harvest_lacks)
    then show ?thesis using Cons by simp
  qed
  from h obtain d where tr: "snd (login st' p' []) = [Get (login_url p'), Post (login_url p') d]"
    using login_ok_events [of st' p' "[]"] by auto
  have b: "post_body st' p' a' t = (Inr False, t @ [Get (new_post_url p')])" for t
    using h lack by (auto simp: post_body_def Let_def raise_for_status_def)
  have e: "post_article st' p' a'
            = (Inr False, [Get (login_url p'), Post (login_url p') d, Sleep 1,
                           Get (new_post_url p')])"
    using h tr
    by (auto simp: post_article_def post_via_browser_automation_def post_article_inner_def b
        split: prod.splits bool.splits)
  then show "\<exists>d. post_article st' p' a'
            = (Inr False, [Get (login_url p'), Post (login_url p') d, Sleep 1,
                           Get (new_post_url p')])"
    by blast
  show "\<forall>d. Post (submit_url p') d \<notin> set (snd (post_article st' p' a'))"
    unfolding e using urls_differ(1) [of p'] by auto
qed

lemma good_login: "login good_site blog [] =
  (True, [Get ''http://blog/wp-login.php'',
          Post ''http://blog/wp-login.php''
            [(''log'', JStr ''admin''), (''pwd'', JStr ''secret''),
             (''wp-submit'', JStr label_login),
             (''redirect_to'', JStr ''http://blog/wp-admin/''),
             (''testcookie'', JStr ''1'')]])"
  by (simp add: login_def login_body_def good_site_def blog_poster login_url_def
      raise_for_status_def login_page_def harvest_def harvest_step_def login_data_def Let_def
      blank_page_def)

lemma changed_login: "fst (login changed_site blog [])"
  by (simp add: login_def login_body_def good_site_def changed_site_def blog_poster login_url_def
      raise_for_status_def login_page_def harvest_def harvest_step_def login_data_def Let_def
      blank_page_def)

lemma good_publish: "fst (post_article good_site blog sample_article) = Inr True"
  by (simp add: post_article_def validate_settings_def post_via_browser_automation_def
      good_login post_article_inner_def post_body_def Let_def)
     (simp add: good_site_def blog_poster raise_for_status_def editor_page_def harvest_def
      harvest_step_def required_fields_def post_data_def dict_item_def dict_get_def
      sample_article_def sliceable_def important_fields_def published_def Let_def)

lemma rejecting_login_url:
  "\<forall>d. \<exists>code q pg. post_login rejecting_site d = Response code (login_url blog @ q) pg"
  by (simp add: rejecting_site_def good_site_def blog_poster login_url_def)

theorem publish_returns_bool_witness:
  "wp_password (new_poster ''http://blog'' ''admin'' [] ''draft'') = [] \<and>
   post_article good_site (new_poster ''http://blog'' ''admin'' [] ''draft'') sample_article
     = (Inr False, []) \<and>
   \<not> fst (login rejecting_site blog []) \<and>
   fst (post_article rejecting_site blog sample_article) = Inr False \<and>
   fst (post_article good_site blog sample_article) = Inr True \<and>
   (\<exists>d code url pg. post_entry good_site d = Response code url pg \<and>
      \<not> (400 \<le> code \<and> code < 600) \<and> published url)"
proof -
  let ?p = "new_poster ''http://blog'' ''admin'' [] ''draft''"
  have e: "wp_password ?p = []" by (simp add: new_poster_def Let_def)
  then have e': "wp_site_url ?p = [] \<or> wp_username ?p = [] \<or> wp_password ?p = []" by simp
  have a: "post_article good_site ?p sample_article = (Inr False, [])"
    by (rule mp [OF conjunct1 [OF conjunct2 [OF publish_returns_bool [of good_site ?p sample_article]]] e'])
  have nl: "\<not> fst (login rejecting_site blog [])"
    by (rule login_page_fails [OF rejecting_login_url])
  have b: "fst (post_article rejecting_site blog sample_article) = Inr False"
    using publish_returns_bool [of rejecting_site blog sample_article] nl by blast
  have c: "(\<exists>d code url pg. post_entry good_site d = Response code url pg \<and>
      \<not> (400 \<le> code \<and> code < 600) \<and> published url)"
    using publish_returns_bool [of good_site blog sample_article] good_publish by blast
  show ?thesis by (intro conjI e a nl b good_publish c)
qed

theorem publish_stops_witness:
  "(\<forall>d. \<exists>code q pg. post_login rejecting_site d = Response code (login_url blog @ q) pg) \<and>
   fst (post_article rejecting_site blog sample_article) = Inr False \<and>
   Get (new_post_url blog) \<notin> set (snd (post_article rejecting_site blog sample_article)) \<and>
   validate_settings blog \<and> fst (login changed_site blog []) \<and>
   get_editor changed_site = Response 200 ''http://blog/wp-admin/post-new.php'' (editor_page []) \<and>
   ''_wpnonce'' \<in> set required_fields \<and>
   (\<exists>d. post_article changed_site blog sample_article
          = (Inr False, [Get (login_url blog), Post (login_url blog) d, Sleep 1,
                         Get (new_post_url blog)]))"
proof -
  note t = publish_stops [of rejecting_site blog sample_article blog changed_site 200
      "''http://blog/wp-admin/post-new.php''" "editor_page []" "''_wpnonce''" sample_article]
  have a: "fst (post_article rejecting_site blog sample_article) = Inr False \<and>
      (\<forall>d. Post (submit_url blog) d \<notin> set (snd (post_article rejecting_site blog sample_article))) \<and>
      Get (new_post_url blog) \<notin> set (snd (post_article rejecting_site blog sample_article))"
    by (rule mp [OF conjunct1 [OF t] rejecting_login_url])
  have v: "validate_settings blog" by (simp add: validate_settings_def blog_poster)
  have g: "get_editor changed_site
           = Response 200 ''http://blog/wp-admin/post-new.php'' (editor_page [])"
    by (simp add: changed_site_def)
  have c: "\<not> (400 \<le> (200::nat) \<and> (200::nat) < 600)" by simp
  have r: "''_wpnonce'' \<in> set required_fields" by (simp add: required_fields_def)
  have f: "\<forall>f others v. forms (editor_page []) = f # others \<and> (Some ''_wpnonce'', Some v) \<in> set f
             \<longrightarrow> v = []"
    by (auto simp: editor_page_def)
  have b: "(\<exists>d. post_article changed_site blog sample_article
          = (Inr False, [Get (login_url blog), Post (login_url blog) d, Sleep 1,
                         Get (new_post_url blog)])) \<and>
      (\<forall>d. Post (submit_url blog) d \<notin> set (snd (post_article changed_site blog sample_article)))"
    by (rule mp [OF conjunct2 [OF t]]) (intro conjI v changed_login g c r f)
  show ?thesis
    by (intro conjI rejecting_login_url conjunct1 [OF a] conjunct2 [OF conjunct2 [OF a]]
        v changed_login g r conjunct1 [OF b])
qed

subsection \<open>Pipeline orchestrator\<close>

lemma update_status_result [simp]:
  "result_of (update_status j tid step n name msg err s) tid = result_of s tid"
  by (simp add: update_status_def result_of_def Let_def fresh_task_def split: option.splits)

lemma update_status_present [simp]:
  "\<exists>t. registry (update_status j tid step n name msg err s) tid = Some t"
  by (simp add: update_status_def Let_def)

lemma update_status_trace [simp]:
  "trace (update_status j tid step n name msg err s) = trace s"
  by (simp add: update_status_def Let_def)

lemma publish_stage_keeps:
  "result_of (publish_stage j tid s) tid = result_of s tid \<and>
   trace (publish_stage j tid s) = trace s @ [PublishCalled (result_of s tid)] \<and>
   registry (publish_stage j tid s) tid \<noteq> None"
proof -
  have r: "result_of (s\<lparr>trace := x\<rparr>) tid = result_of s tid" for x
    by (simp add: result_of_def)
  show ?thesis
    by (cases "publish j"; cases "projr (publish j)")
       (simp_all add: publish_stage_def Let_def r)
qed

lemma after_generation_keeps:
  assumes "after_generation j tid wp a s = (e, s')" and "registry s tid \<noteq> None"
  shows "registry s' tid \<noteq> None \<and>
         (e = None \<longrightarrow> result_of s' tid = Some a) \<and>
         (trace s' = trace s \<or> trace s' = trace s @ [PublishCalled (Some a)])"
proof (cases "dict_item a ''title''")
  case (Inl x)
  then show ?thesis using assms by (auto simp: after_generation_def)
next
  case (Inr title)
  let ?s1 = "update_status j tid 3 4 ArticleGeneration (GenerateComplete title) None s"
  obtain t where t: "registry ?s1 tid = Some t" using update_status_present by blast
  let ?s2 = "?s1\<lparr>registry := (registry ?s1)(tid \<mapsto> t\<lparr>result := Some a\<rparr>)\<rparr>"
  let ?s3 = "update_status j tid 4 4 WordPressPosting PostingNow None ?s2"
  have r3: "result_of ?s3 tid = Some a" by (simp add: result_of_def [of ?s2])
  have t3: "trace ?s3 = trace s" by simp
  show ?thesis
    using assms(1) Inr t r3 t3 publish_stage_keeps [of j tid ?s3]
    by (auto simp: after_generation_def Let_def split: sum.splits if_splits)
qed

text \<open>
  Claim C4. For every job whose settings, download, transcription and generation
  succeed, whatever the publishing stage does (return True or False, or raise) and
  whatever fails after the generation, the task's \<open>result\<close> field holds the generated
  article when \<open>process_podcast_background\<close> ends; and the publishing stage, if it is
  called at all, is called once, with the article already stored in that field.
\<close>

theorem article_kept:
  assumes "merge_settings j = Inr wp" and "download_audio j = Inr path"
    and "transcribe_audio j = Inr text" and "generate j = Inr a"
  shows "result_of (process_podcast_background j tid url s) tid = Some a \<and>
         (trace (process_podcast_background j tid url s) = trace s \<or>
          trace (process_podcast_background j tid url s) = trace s @ [PublishCalled (Some a)])"
proof -
  let ?s5 = "update_status j tid 3 4 ArticleGeneration GeneratingArticle None
              (update_status j tid 2 4 Transcription (TranscribeComplete (codepoints text)) None
                (update_status j tid 2 4 Transcription TranscribingNow None
                  (update_status j tid 1 4 AudioDownload DownloadComplete None
                    (update_status j tid 1 4 AudioDownload (DownloadingFrom url) None s))))"
  obtain e s6 where ag: "after_generation j tid wp a ?s5 = (e, s6)"
    by (cases "after_generation j tid wp a ?s5") auto
  have p: "pipeline j tid url s = (e, Some a, s6)"
    using assms ag by (simp add: pipeline_def Let_def)
  from after_generation_keeps [OF ag] have
    d: "registry s6 tid \<noteq> None" and r: "e = None \<longrightarrow> result_of s6 tid = Some a"
    and tr: "trace s6 = trace s \<or> trace s6 = trace s @ [PublishCalled (Some a)]"
    by simp_all
  show ?thesis
  proof (cases e)
    case None
    then show ?thesis using p r tr by (simp add: process_podcast_background_def)
  next
    case (Some x)
    from d obtain t where "registry s6 tid = Some t" by auto
    then show ?thesis using p Some tr
      by (simp add: process_podcast_background_def Let_def result_of_def)
  qed
qed

theorem article_kept_witness:
  "generate (sample_job (Inl (TransportError ''down''))) = Inr sample_article \<and>
   publish (sample_job (Inl (TransportError ''down''))) = Inl (TransportError ''down'') \<and>
   result_of (process_podcast_background (sample_job (Inl (TransportError ''down'')))
                ''t1'' ''http://x/a.mp3'' no_tasks) ''t1'' = Some sample_article \<and>
   result_of (process_podcast_background (sample_job (Inr False))
                ''t1'' ''http://x/a.mp3'' no_tasks) ''t1'' = Some sample_article"
proof -
  have g: "generate (sample_job p) = Inr sample_article" for p by (simp add: sample_job_def)
  have m: "merge_settings (sample_job p)
           = Inr [(''site_url'', JStr ''http://blog''), (''username'', JStr ''admin''),
                  (''password'', JStr ''secret'')]" for p
    by (simp add: sample_job_def)
  have d: "download_audio (sample_job p) = Inr ''/tmp/podcast.m4a''" for p
    by (simp add: sample_job_def)
  have t: "transcribe_audio (sample_job p) = Inr ''hello''" for p by (simp add: sample_job_def)
  have u: "publish (sample_job (Inl (TransportError ''down''))) = Inl (TransportError ''down'')"
    by (simp add: sample_job_def)
  note a = article_kept [OF m d t g, of _ "''t1''" "''http://x/a.mp3''" no_tasks]
  show ?thesis by (intro conjI g u conjunct1 [OF a])
qed

end
